theory Spec2Isabelle
  imports Main "HOL-Library.Word"
begin

section \<open>Shared conventions\<close>

text \<open>
  The two translation units verified here are the IW4 menu dumper
  (\<^verbatim>\<open>AssetDumperMenuDef.cpp\<close>, the expression statement serializer) and the T6
  info-string converter (\<^verbatim>\<open>InfoStringT6.cpp\<close>, the struct to text direction).

  Failures of the C++ code are values of the model. \<^verbatim>\<open>assert\<close> is modelled as
  compiled in (no \<^verbatim>\<open>NDEBUG\<close>): a failing assertion ends the computation with
  \<open>AssertionFailed\<close>. Reading an array element at an index that the array does not
  have is \<open>OutOfBounds\<close>, and reading the member of a union that the entry's tag
  does not select is \<open>InactiveUnionMember\<close>; in C++ both are undefined behaviour.
\<close>

datatype error = AssertionFailed | OutOfBounds | InactiveUnionMember

definition array_read :: "'a list \<Rightarrow> nat \<Rightarrow> error + 'a" where
  "array_read xs i = (if i < length xs then Inr (xs ! i) else Inl OutOfBounds)"

text \<open>
  \<^verbatim>\<open>static_cast<size_t>(i)\<close> for an \<^verbatim>\<open>int\<close> \<open>i\<close> on a target whose
  \<^verbatim>\<open>size_t\<close> has 64 bits: a negative value wraps around.
\<close>

definition size_t_cast :: "int \<Rightarrow> nat" where
  "size_t_cast i = nat (i mod 2 ^ 64)"

text \<open>
  \<^verbatim>\<open>stream << n\<close> for an integer, with the stream's default formatting: the
  decimal digits, with a leading minus sign for a negative value.
\<close>

function show_nat :: "nat \<Rightarrow> string" where
  "show_nat n =
     (if n < 10 then [''0123456789'' ! n]
      else show_nat (n div 10) @ [''0123456789'' ! (n mod 10)])"
  by pat_completeness auto

termination
  by (relation "measure (\<lambda>n. n)") auto

declare show_nat.simps [simp del]

definition show_int :: "int \<Rightarrow> string" where
  "show_int i = (if i < 0 then ''-'' @ show_nat (nat (- i)) else show_nat (nat i))"

section \<open>IW4 menu dumper: the data model of a statement\<close>

text \<open>
  The header that declares \<^verbatim>\<open>Statement_s\<close> and the operator enumeration is not
  among the sources. The records below carry exactly the members that the dumper reads.
  An entry is a tagged union: its \<^verbatim>\<open>type\<close> selects \<^verbatim>\<open>data.op\<close> or
  \<^verbatim>\<open>data.operand\<close>, and the operand's \<^verbatim>\<open>dataType\<close> selects the member of
  \<^verbatim>\<open>internals\<close>. A float is kept as its 32-bit pattern, a function handle as its
  address, a pointer that may be null as an \<open>option\<close>, and a pointer to an array as
  the list of the elements it points to (next to the separately stored count).
  \<^verbatim>\<open>numEntries\<close> is a 32-bit \<^verbatim>\<open>int\<close>, read with \<open>sint\<close>, because the dumper
  casts it to \<^verbatim>\<open>size_t\<close>; the other counts and the integer operand are only
  compared with each other and are kept as \<open>int\<close>.
\<close>

datatype Operand =
    VAL_INT int
  | VAL_FLOAT "32 word"
  | VAL_STRING string
  | VAL_FUNCTION nat
  | VAL_OTHER int

datatype expressionEntry =
    EET_OPERATOR int
  | EET_OPERAND Operand

record StaticDvar =
  dvarName :: "string option"

record StaticDvarList =
  numStaticDvars :: int
  staticDvars :: "StaticDvar option list option"

record UIFunctionList =
  totalFunctions :: int
  functions_array :: "nat list option"

record ExpressionSupportingData =
  uifunctions :: UIFunctionList
  staticDvarList :: StaticDvarList

record Statement_s =
  numEntries :: "32 word"
  entries :: "expressionEntry list"
  supportingData :: "ExpressionSupportingData option"

text \<open>
  The numeric values of the operator enumeration are declared in the missing header,
  so they are a parameter of every function that mentions one of them.
\<close>

record operationEnum =
  OP_RIGHTPAREN :: int
  OP_NEG :: int
  OP_LEFTPAREN :: int
  OP_COMMA :: int
  OP_COUNT :: int
  EXP_FUNC_STATIC_DVAR_INT :: int
  EXP_FUNC_STATIC_DVAR_BOOL :: int
  EXP_FUNC_STATIC_DVAR_FLOAT :: int
  EXP_FUNC_STATIC_DVAR_STRING :: int

text \<open>
  Modelled from the spec: the enumeration itself is absent from the sources. It is
  the opcode that indexes \<open>g_expFunctionNames\<close>, so each value is the position of the
  operator's token in that table; \<open>OP_COUNT\<close> is the count of named operators, which
  are the entries before the first function name; the unary negation marker is taken
  to be \<^verbatim>\<open>!\<close>. Only the concrete examples use these values; every general theorem
  is stated for an arbitrary enumeration.
\<close>

definition IW4_operationEnum :: operationEnum where
  "IW4_operationEnum =
     \<lparr>OP_RIGHTPAREN = 1, OP_NEG = 7, OP_LEFTPAREN = 16, OP_COMMA = 17, OP_COUNT = 23,
      EXP_FUNC_STATIC_DVAR_INT = 23, EXP_FUNC_STATIC_DVAR_BOOL = 24,
      EXP_FUNC_STATIC_DVAR_FLOAT = 25, EXP_FUNC_STATIC_DVAR_STRING = 26\<rparr>"

definition g_expFunctionNames :: "string list" where
  "g_expFunctionNames =
  [''NOOP'',
   '')'',
   ''*'',
   ''/'',
   ''%'',
   ''+'',
   ''-'',
   ''!'',
   ''<'',
   ''<='',
   ''>'',
   ''>='',
   ''=='',
   ''!='',
   ''&&'',
   ''||'',
   ''('',
   '','',
   ''&'',
   ''|'',
   ''~'',
   ''<<'',
   ''>>'',
   ''dvarint(static)'' @ [CHR 0x01, CHR 0x02],
   ''dvarbool(static)'' @ [CHR 0x01, CHR 0x03],
   ''dvarfloat(static)'' @ [CHR 0x01, CHR 0x04],
   ''dvarstring(static)'' @ [CHR 0x01, CHR 0x05],
   ''int'',
   ''string'',
   ''float'',
   ''sin'',
   ''cos'',
   ''min'',
   ''max'',
   ''milliseconds'',
   ''dvarint'',
   ''dvarbool'',
   ''dvarfloat'',
   ''dvarstring'',
   ''stat'',
   ''ui_active'',
   ''flashbanged'',
   ''usingvehicle'',
   ''missilecam'',
   ''scoped'',
   ''scopedthermal'',
   ''scoreboard_visible'',
   ''inkillcam'',
   ''inkillcamnpc'',
   ''player'',
   ''getperk'',
   ''selecting_location'',
   ''selecting_direction'',
   ''team'',
   ''otherteam'',
   ''marinesfield'',
   ''opforfield'',
   ''menuisopen'',
   ''writingdata'',
   ''inlobby'',
   ''inprivateparty'',
   ''privatepartyhost'',
   ''privatepartyhostinlobby'',
   ''aloneinparty'',
   ''adsjavelin'',
   ''weaplockblink'',
   ''weapattacktop'',
   ''weapattackdirect'',
   ''weaplocking'',
   ''weaplocked'',
   ''weaplocktooclose'',
   ''weaplockscreenposx'',
   ''weaplockscreenposy'',
   ''secondsastime'',
   ''tablelookup'',
   ''tablelookupbyrow'',
   ''tablegetrownum'',
   ''locstring'',
   ''localvarint'',
   ''localvarbool'',
   ''localvarfloat'',
   ''localvarstring'',
   ''timeleft'',
   ''secondsascountdown'',
   ''gamemsgwndactive'',
   ''gametypename'',
   ''gametype'',
   ''gametypedescription'',
   ''scoreatrank'',
   ''friendsonline'',
   ''spectatingclient'',
   ''spectatingfree'',
   ''statrangeanybitsset'',
   ''keybinding'',
   ''actionslotusable'',
   ''hudfade'',
   ''maxrecommendedplayers'',
   ''acceptinginvite'',
   ''isintermission'',
   ''gamehost'',
   ''partyismissingmappack'',
   ''partymissingmappackerror'',
   ''anynewmappacks'',
   ''amiselected'',
   ''partystatusstring'',
   ''attachedcontrollercount'',
   ''issplitscreenonlinepossible'',
   ''splitscreenplayercount'',
   ''getplayerdata'',
   ''getplayerdatasplitscreen'',
   ''experienceforlevel'',
   ''levelforexperience'',
   ''isitemunlocked'',
   ''isitemunlockedsplitscreen'',
   ''debugprint'',
   ''getplayerdataanybooltrue'',
   ''weaponclassnew'',
   ''weaponname'',
   ''isreloading'',
   ''savegameavailable'',
   ''unlockeditemcount'',
   ''unlockeditemcountsplitscreen'',
   ''unlockeditem'',
   ''unlockeditemsplitscreen'',
   ''mailsubject'',
   ''mailfrom'',
   ''mailreceived'',
   ''mailbody'',
   ''maillootlocalized'',
   ''mailgivesloot'',
   ''anynewmail'',
   ''mailtimetofollowup'',
   ''mailloottype'',
   ''mailranlottery'',
   ''lotterylootlocalized'',
   ''radarisjammed'',
   ''radarjamintensity'',
   ''radarisenabled'',
   ''isempjammed'',
   ''playerads'',
   ''weaponheatactive'',
   ''weaponheatvalue'',
   ''weaponheatoverheated'',
   ''getsplashtext'',
   ''getsplashdescription'',
   ''getsplashmaterial'',
   ''splashhasicon'',
   ''splashrownum'',
   ''getfocuseditemname'',
   ''getfocuseditemx'',
   ''getfocuseditemy'',
   ''getfocuseditemwidth'',
   ''getfocuseditemheight'',
   ''getitemx'',
   ''getitemy'',
   ''getitemwidth'',
   ''getitemheight'',
   ''playlist'',
   ''scoreboardexternalmutenotice'',
   ''getclientmatchdata'',
   ''getclientmatchdatadef'',
   ''getmapname'',
   ''getmapimage'',
   ''getmapcustom'',
   ''getmigrationstatus'',
   ''getplayercardinfo'',
   ''isofflineprofileselected'',
   ''coopplayer'',
   ''iscoop'',
   ''getpartystatus'',
   ''getsearchparams'',
   ''gettimeplayed'',
   ''isselectedplayerfriend'',
   ''getcharbyindex'',
   ''getprofiledata'',
   ''isprofilesignedin'',
   ''getwaitpopupstatus'',
   ''getnattype'',
   ''getlocalizednattype'',
   ''getadjustedsafeareahorizontal'',
   ''getadjustedsafeareavertical'',
   ''connectioninfo'',
   ''offlineprofilecansave'',
   ''allsplitscreenprofilescansave'',
   ''allsplitscreenprofilesaresignedin'',
   ''coopready'']"

section \<open>IW4 menu dumper: the matching closing parenthesis\<close>

text \<open>
  The \<^verbatim>\<open>for\<close> loop of \<^verbatim>\<open>FindStatementClosingParenthesis\<close>. The depth is a C
  \<^verbatim>\<open>int\<close>; it grows by at most one per scanned entry and there are fewer than
  \<open>2 ^ 31\<close> entries, so it cannot overflow and is modelled as \<open>int\<close>.
\<close>

function FindStatementClosingParenthesis_loop ::
  "operationEnum \<Rightarrow> Statement_s \<Rightarrow> nat \<Rightarrow> int \<Rightarrow> nat \<Rightarrow> error + nat" where
  "FindStatementClosingParenthesis_loop c statement statementEnd currentParenthesisDepth
       currentSearchPosition =
     (if currentSearchPosition < statementEnd then
        (case array_read (entries statement) currentSearchPosition of
           Inl e \<Rightarrow> Inl e
         | Inr expEntry \<Rightarrow>
             (case expEntry of
                EET_OPERAND _ \<Rightarrow>
                  FindStatementClosingParenthesis_loop c statement statementEnd
                    currentParenthesisDepth (currentSearchPosition + 1)
              | EET_OPERATOR op \<Rightarrow>
                  if op = OP_LEFTPAREN c \<or> op \<ge> OP_COUNT c then
                    FindStatementClosingParenthesis_loop c statement statementEnd
                      (currentParenthesisDepth + 1) (currentSearchPosition + 1)
                  else if op = OP_RIGHTPAREN c then
                    (let depth' = (if currentParenthesisDepth > 0
                                   then currentParenthesisDepth - 1
                                   else currentParenthesisDepth)
                     in if depth' = 0 then Inr currentSearchPosition
                        else FindStatementClosingParenthesis_loop c statement statementEnd
                               depth' (currentSearchPosition + 1))
                  else
                    FindStatementClosingParenthesis_loop c statement statementEnd
                      currentParenthesisDepth (currentSearchPosition + 1)))
      else Inr statementEnd)"
  by pat_completeness auto

termination
  by (relation "measure (\<lambda>(c, statement, statementEnd, depth, pos). statementEnd - pos)") auto

declare FindStatementClosingParenthesis_loop.simps [simp del]

definition FindStatementClosingParenthesis ::
  "operationEnum \<Rightarrow> Statement_s \<Rightarrow> nat \<Rightarrow> error + nat" where
  "FindStatementClosingParenthesis c statement openingParenthesisPosition =
     (if \<not> sint (numEntries statement) \<ge> 0 then Inl AssertionFailed
      else if \<not> openingParenthesisPosition < size_t_cast (sint (numEntries statement))
        then Inl AssertionFailed
      else FindStatementClosingParenthesis_loop c statement
             (size_t_cast (sint (numEntries statement))) 1 (openingParenthesisPosition + 1))"

section \<open>IW4 menu dumper: writing operands and operators\<close>

text \<open>
  The output stream \<^verbatim>\<open>m_stream\<close> is the text written so far; every writing
  function takes it and returns it extended. The cursor \<^verbatim>\<open>currentPos\<close> and the
  flag \<^verbatim>\<open>spaceNext\<close> are passed by reference in the source and are returned here
  next to the stream. How the stream formats a \<^verbatim>\<open>float\<close> is the parameter
  \<open>show_float\<close>.
\<close>

text \<open>The search loop over \<^verbatim>\<open>uifunctions.functions\<close> inside \<^verbatim>\<open>WriteStatementOperand\<close>;
  the result is \<^verbatim>\<open>functionIndex\<close>, which stays \<open>-1\<close> when nothing matches.\<close>

function WriteStatementOperand_search :: "nat list \<Rightarrow> int \<Rightarrow> nat \<Rightarrow> int \<Rightarrow> error + int" where
  "WriteStatementOperand_search fs count handle supportingFunctionIndex =
     (if supportingFunctionIndex < count then
        (case array_read fs (nat supportingFunctionIndex) of
           Inl e \<Rightarrow> Inl e
         | Inr f \<Rightarrow>
             if f = handle then Inr supportingFunctionIndex
             else WriteStatementOperand_search fs count handle (supportingFunctionIndex + 1))
      else Inr (- 1))"
  by pat_completeness auto

termination
  by (relation "measure (\<lambda>(fs, count, handle, i). nat (count - i))") auto

declare WriteStatementOperand_search.simps [simp del]

definition WriteStatementOperand ::
  "(32 word \<Rightarrow> string) \<Rightarrow> Statement_s \<Rightarrow> nat \<Rightarrow> bool \<Rightarrow> string
     \<Rightarrow> error + (nat \<times> bool \<times> string)" where
  "WriteStatementOperand show_float statement currentPos spaceNext out =
     (case array_read (entries statement) currentPos of
        Inl e \<Rightarrow> Inl e
      | Inr expEntry \<Rightarrow>
          (let out1 = (if spaceNext then out @ '' '' else out) in
           case expEntry of
             EET_OPERATOR _ \<Rightarrow> Inl InactiveUnionMember
           | EET_OPERAND operand \<Rightarrow>
               (case
                  (case operand of
                     VAL_FLOAT floatVal \<Rightarrow> Inr (out1 @ show_float floatVal)
                   | VAL_INT intVal \<Rightarrow> Inr (out1 @ show_int intVal)
                   | VAL_STRING stringVal \<Rightarrow> Inr (out1 @ [CHR 0x22] @ stringVal @ [CHR 0x22])
                   | VAL_FUNCTION handle \<Rightarrow>
                       (case
                          (case supportingData statement of
                             None \<Rightarrow> Inr (- 1)
                           | Some sd \<Rightarrow>
                               (case functions_array (uifunctions sd) of
                                  None \<Rightarrow> Inr (- 1)
                                | Some fs \<Rightarrow>
                                    WriteStatementOperand_search fs
                                      (totalFunctions (uifunctions sd)) handle 0))
                        of
                          Inl e \<Rightarrow> Inl e
                        | Inr functionIndex \<Rightarrow>
                            if functionIndex \<ge> 0
                            then Inr (out1 @ ''FUNC_'' @ show_int functionIndex)
                            else Inr (out1 @ ''INVALID_FUNC''))
                   | VAL_OTHER _ \<Rightarrow> Inr out1)
                of
                  Inl e \<Rightarrow> Inl e
                | Inr out2 \<Rightarrow> Inr (currentPos + 1, True, out2))))"

text \<open>
  The block of \<^verbatim>\<open>WriteStatementOperator\<close> that writes the argument of a static
  dvar accessor: it reads the entry after the operator and looks its integer up in
  \<^verbatim>\<open>staticDvarList\<close>.
\<close>

definition WriteStatementOperator_staticDvar :: "Statement_s \<Rightarrow> nat \<Rightarrow> string \<Rightarrow> error + string" where
  "WriteStatementOperator_staticDvar statement currentPos out =
     (case array_read (entries statement) (currentPos + 1) of
        Inl e \<Rightarrow> Inl e
      | Inr staticDvarEntry \<Rightarrow>
          (case staticDvarEntry of
             EET_OPERAND (VAL_INT intVal) \<Rightarrow>
               (case supportingData statement of
                  None \<Rightarrow> Inr (out @ ''#INVALID_DVAR_INDEX'')
                | Some sd \<Rightarrow>
                    (case staticDvars (staticDvarList sd) of
                       None \<Rightarrow> Inr (out @ ''#INVALID_DVAR_INDEX'')
                     | Some dvars \<Rightarrow>
                         if intVal \<ge> 0 \<and> intVal < numStaticDvars (staticDvarList sd) then
                           (case array_read dvars (nat intVal) of
                              Inl e \<Rightarrow> Inl e
                            | Inr staticDvar \<Rightarrow>
                                (case staticDvar of
                                   None \<Rightarrow> Inr out
                                 | Some dvar \<Rightarrow>
                                     (case dvarName dvar of
                                        None \<Rightarrow> Inr out
                                      | Some name \<Rightarrow> Inr (out @ name))))
                         else Inr (out @ ''#INVALID_DVAR_INDEX'')))
           | _ \<Rightarrow> Inr (out @ ''#INVALID_DVAR_OPERAND'')))"

text \<open>
  \<^verbatim>\<open>WriteStatementOperator\<close>, \<^verbatim>\<open>WriteStatementEntryRange\<close> and the
  \<^verbatim>\<open>while\<close> loop of the latter call each other. The guard
  \<^verbatim>\<open>closingParenPos - currentPos + 1 >= 1\<close> is computed in \<^verbatim>\<open>size_t\<close>, so the
  wrap-around is written out.
\<close>

function WriteStatementOperator ::
    "operationEnum \<Rightarrow> (32 word \<Rightarrow> string) \<Rightarrow> Statement_s \<Rightarrow> nat \<Rightarrow> bool \<Rightarrow> string
       \<Rightarrow> error + (nat \<times> bool \<times> string)"
  and WriteStatementEntryRange_loop ::
    "operationEnum \<Rightarrow> (32 word \<Rightarrow> string) \<Rightarrow> Statement_s \<Rightarrow> nat \<Rightarrow> nat \<Rightarrow> bool \<Rightarrow> string
       \<Rightarrow> error + string"
  and WriteStatementEntryRange ::
    "operationEnum \<Rightarrow> (32 word \<Rightarrow> string) \<Rightarrow> Statement_s \<Rightarrow> nat \<Rightarrow> nat \<Rightarrow> string
       \<Rightarrow> error + string"
where
  "WriteStatementOperator c show_float statement currentPos spaceNext out =
     (case array_read (entries statement) currentPos of
        Inl e \<Rightarrow> Inl e
      | Inr expEntry \<Rightarrow>
          (case expEntry of
             EET_OPERAND _ \<Rightarrow> Inl InactiveUnionMember
           | EET_OPERATOR op \<Rightarrow>
               (let out1 = (if spaceNext \<and> op \<noteq> OP_COMMA c then out @ '' '' else out) in
                if op = OP_LEFTPAREN c then
                  (case FindStatementClosingParenthesis c statement currentPos of
                     Inl e \<Rightarrow> Inl e
                   | Inr closingParenPos \<Rightarrow>
                       (case WriteStatementEntryRange c show_float statement (currentPos + 1)
                               closingParenPos (out1 @ ''('') of
                          Inl e \<Rightarrow> Inl e
                        | Inr out2 \<Rightarrow> Inr (closingParenPos + 1, True, out2 @ '')'')))
                else if op \<ge> EXP_FUNC_STATIC_DVAR_INT c \<and> op \<le> EXP_FUNC_STATIC_DVAR_STRING c then
                  (let out2 =
                     (if op = EXP_FUNC_STATIC_DVAR_INT c then out1 @ ''dvarint''
                      else if op = EXP_FUNC_STATIC_DVAR_BOOL c then out1 @ ''dvarbool''
                      else if op = EXP_FUNC_STATIC_DVAR_FLOAT c then out1 @ ''dvarfloat''
                      else if op = EXP_FUNC_STATIC_DVAR_STRING c then out1 @ ''dvarstring''
                      else out1)
                   in
                   case FindStatementClosingParenthesis c statement currentPos of
                     Inl e \<Rightarrow> Inl e
                   | Inr closingParenPos \<Rightarrow>
                       (case
                          (if size_t_cast (int closingParenPos - int currentPos + 1) \<ge> 1
                           then WriteStatementOperator_staticDvar statement currentPos (out2 @ ''('')
                           else Inr (out2 @ ''(''))
                        of
                          Inl e \<Rightarrow> Inl e
                        | Inr out3 \<Rightarrow> Inr (closingParenPos + 1, True, out3 @ '')'')))
                else
                  (let out2 =
                     (if op \<ge> 0 \<and> nat op < length g_expFunctionNames
                      then out1 @ g_expFunctionNames ! nat op
                      else out1)
                   in
                   if op \<ge> OP_COUNT c then
                     (case FindStatementClosingParenthesis c statement currentPos of
                        Inl e \<Rightarrow> Inl e
                      | Inr closingParenPos \<Rightarrow>
                          (case WriteStatementEntryRange c show_float statement (currentPos + 1)
                                  closingParenPos (out2 @ ''('') of
                             Inl e \<Rightarrow> Inl e
                           | Inr out3 \<Rightarrow>
                               Inr (closingParenPos + 1, op \<noteq> OP_NEG c, out3 @ '')'')))
                   else Inr (currentPos + 1, op \<noteq> OP_NEG c, out2)))))"
| "WriteStatementEntryRange_loop c show_float statement endOffset currentPos spaceNext out =
     (if currentPos < endOffset then
        (case array_read (entries statement) currentPos of
           Inl e \<Rightarrow> Inl e
         | Inr expEntry \<Rightarrow>
             (case expEntry of
                EET_OPERATOR _ \<Rightarrow>
                  (case WriteStatementOperator c show_float statement currentPos spaceNext out of
                     Inl e \<Rightarrow> Inl e
                   | Inr (currentPos', spaceNext', out') \<Rightarrow>
                       WriteStatementEntryRange_loop c show_float statement endOffset
                         currentPos' spaceNext' out')
              | EET_OPERAND _ \<Rightarrow>
                  (case WriteStatementOperand show_float statement currentPos spaceNext out of
                     Inl e \<Rightarrow> Inl e
                   | Inr (currentPos', spaceNext', out') \<Rightarrow>
                       WriteStatementEntryRange_loop c show_float statement endOffset
                         currentPos' spaceNext' out')))
      else Inr out)"
| "WriteStatementEntryRange c show_float statement startOffset endOffset out =
     (if \<not> startOffset \<le> endOffset then Inl AssertionFailed
      else if \<not> endOffset \<le> size_t_cast (sint (numEntries statement)) then Inl AssertionFailed
      else WriteStatementEntryRange_loop c show_float statement endOffset startOffset False out)"
  by pat_completeness auto

text \<open>
  Termination. The cursor only moves forward: the closing position found for an
  operator lies behind the operator, and an operand moves the cursor by one. Every
  recursive call therefore starts nearer to the end of the entry array.
\<close>

lemma array_read_Inr: "array_read xs i = Inr x \<Longrightarrow> i < length xs"
  by (simp add: array_read_def split: if_splits)

lemma FindStatementClosingParenthesis_loop_bounds:
  "FindStatementClosingParenthesis_loop c st n d pos = Inr r \<Longrightarrow> pos \<le> n \<Longrightarrow> pos \<le> r \<and> r \<le> n"
proof (induction c st n d pos rule: FindStatementClosingParenthesis_loop.induct)
  case (1 c st n d pos)
  note unf = FindStatementClosingParenthesis_loop.simps [of c st n d pos]
  show ?case
  proof (cases "pos < n")
    case False
    with "1.prems" show ?thesis
      by (simp add: unf)
  next
    case True
    with "1.prems" obtain e where e: "array_read (entries st) pos = Inr e"
      by (auto simp: unf split: sum.splits)
    show ?thesis
    proof (cases e)
      case (EET_OPERAND x)
      with True e "1.prems" have "FindStatementClosingParenthesis_loop c st n d (pos + 1) = Inr r"
        by (simp add: unf)
      with "1.IH"(4) [OF True e EET_OPERAND] True show ?thesis by simp
    next
      case op: (EET_OPERATOR op)
      show ?thesis
      proof (cases "op = OP_LEFTPAREN c \<or> op \<ge> OP_COUNT c")
        case inc: True
        with True e op "1.prems" have "FindStatementClosingParenthesis_loop c st n (d + 1) (pos + 1) = Inr r"
          by (simp add: unf)
        with "1.IH"(1) [OF True e op inc] True show ?thesis by simp
      next
        case ninc: False
        show ?thesis
        proof (cases "op = OP_RIGHTPAREN c")
          case rp: True
          define d' where "d' = (if d > 0 then d - 1 else d)"
          show ?thesis
          proof (cases "d' = 0")
            case True
            with \<open>pos < n\<close> e op ninc rp "1.prems" show ?thesis
              by (simp add: unf d'_def Let_def)
          next
            case nz: False
            with True e op ninc rp "1.prems" have "FindStatementClosingParenthesis_loop c st n d' (pos + 1) = Inr r"
              by (simp add: unf d'_def Let_def)
            with "1.IH"(2) [OF True e op ninc rp d'_def nz] True show ?thesis by simp
          qed
        next
          case nrp: False
          with True e op ninc "1.prems" have "FindStatementClosingParenthesis_loop c st n d (pos + 1) = Inr r"
            by (simp add: unf)
          with "1.IH"(3) [OF True e op ninc nrp] True show ?thesis by simp
        qed
      qed
    qed
  qed
qed

lemma FindStatementClosingParenthesis_bounds:
  "FindStatementClosingParenthesis c st p = Inr r \<Longrightarrow>
     p < r \<and> r \<le> size_t_cast (sint (numEntries st))"
  using FindStatementClosingParenthesis_loop_bounds [of c st "size_t_cast (sint (numEntries st))" 1 "p + 1" r]
  by (auto simp: FindStatementClosingParenthesis_def split: if_splits)

lemma WriteStatementOperand_cursor:
  "WriteStatementOperand sf st p sp out = Inr (p', sp', out') \<Longrightarrow> p' = p + 1 \<and> sp'"
  by (auto simp: WriteStatementOperand_def Let_def split: sum.splits expressionEntry.splits)

lemma WriteStatementOperator_cursor_dom:
  "WriteStatementOperator_WriteStatementEntryRange_loop_WriteStatementEntryRange_dom
     (Inl (c, sf, st, p, sp, out)) \<Longrightarrow>
   WriteStatementOperator c sf st p sp out = Inr (p', sp', out') \<Longrightarrow> p < p'"
  by (auto simp: WriteStatementOperator.psimps Let_def
      split: sum.splits expressionEntry.splits if_splits
      dest: FindStatementClosingParenthesis_bounds)

termination WriteStatementOperator
proof (relation "measure (\<lambda>x. case x of
            Inl (c, sf, st, p, sp, out) \<Rightarrow> 3 * (length (entries st) + 1 - p)
          | Inr (Inl (c, sf, st, e, p, sp, out)) \<Rightarrow> 3 * (length (entries st) + 1 - p) + 1
          | Inr (Inr (c, sf, st, s, e, out)) \<Rightarrow> 3 * (length (entries st) + 1 - s) + 2)",
       goal_cases)
  case 1
  show ?case by simp
next
  case (2 c sf st p sp out e op out1 r)
  then show ?case by (auto dest: array_read_Inr)
next
  case (3 c sf st p sp out e op out1 out2 r)
  then show ?case by (auto dest: array_read_Inr)
next
  case (4 c sf st e p sp out)
  then show ?case by simp
next
  case (5 c sf st e p sp out ent op res p' y sp' out')
  then show ?case 
    by (auto dest!: array_read_Inr WriteStatementOperator_cursor_dom)
next
  case (6 c sf st e p sp out ent x res p' y sp' out')
  then show ?case
    by (auto dest!: array_read_Inr WriteStatementOperand_cursor)
next
  case (7 c sf st s e out)
  then show ?case by simp
qed

declare WriteStatementOperator.simps [simp del]

declare WriteStatementEntryRange_loop.simps [simp del]

declare WriteStatementEntryRange.simps [simp del]

section \<open>IW4 menu dumper: a statement as a property line\<close>

text \<open>
  \<^verbatim>\<open>Indent\<close> is a member of the base class \<^verbatim>\<open>MenuDumper\<close>, which is not among
  the sources: what it does to the stream is the parameter \<open>Indent\<close>.
\<close>

definition MENU_KEY_SPACING :: nat where
  "MENU_KEY_SPACING = 28"

definition WriteKey :: "string \<Rightarrow> string \<Rightarrow> string" where
  "WriteKey keyName out =
     (let out1 = out @ keyName in
      if length keyName < MENU_KEY_SPACING
      then out1 @ replicate (MENU_KEY_SPACING - length keyName) (CHR '' '')
      else out1)"

definition WriteStatementProperty ::
  "(string \<Rightarrow> string) \<Rightarrow> operationEnum \<Rightarrow> (32 word \<Rightarrow> string) \<Rightarrow> string
     \<Rightarrow> Statement_s option \<Rightarrow> bool \<Rightarrow> string \<Rightarrow> error + string" where
  "WriteStatementProperty Indent c show_float propertyKey statementValue isBooleanStatement out =
     (case statementValue of
        None \<Rightarrow> Inr out
      | Some statement \<Rightarrow>
          if sint (numEntries statement) < 0 then Inr out
          else
            (let out1 = WriteKey propertyKey (Indent out);
                 statementEnd = size_t_cast (sint (numEntries statement))
             in
             case
               (if isBooleanStatement then
                  (let out2 = out1 @ ''when'' in
                   if statementEnd < 1 then Inr (out2 @ '' '')
                   else
                     (case array_read (entries statement) 0 of
                        Inl e \<Rightarrow> Inl e
                      | Inr expEntry \<Rightarrow>
                          (case expEntry of
                             EET_OPERAND _ \<Rightarrow> Inr (out2 @ '' '')
                           | EET_OPERATOR op \<Rightarrow>
                               if op \<noteq> OP_LEFTPAREN c then Inr (out2 @ '' '') else Inr out2)))
                else Inr out1)
             of
               Inl e \<Rightarrow> Inl e
             | Inr out3 \<Rightarrow>
                 (case WriteStatementEntryRange c show_float statement 0 statementEnd out3 of
                    Inl e \<Rightarrow> Inl e
                  | Inr out4 \<Rightarrow> Inr (out4 @ '';'' @ [CHR 0x0A]))))"

section \<open>T6 info strings: from a structure to text\<close>

text \<open>
  \<^verbatim>\<open>InfoStringFromStructConverter\<close> walks a table of field descriptors over a
  structure. The field type is an \<^verbatim>\<open>int\<close> that the switch casts to the enumeration
  \<^verbatim>\<open>csParseFieldType_t\<close>. The header that declares the enumeration and the
  descriptor is not among the sources: the enumerators below are the ones the switch
  names, in its order, and their numeric values are the parameter \<open>ev\<close> of every
  function that compares a tag with one of them.
\<close>

datatype csParseFieldType_t =
    CSPFT_STRING
  | CSPFT_STRING_MAX_STRING_CHARS
  | CSPFT_STRING_MAX_QPATH
  | CSPFT_STRING_MAX_OSPATH
  | CSPFT_INT
  | CSPFT_UINT
  | CSPFT_BOOL
  | CSPFT_QBOOLEAN
  | CSPFT_FLOAT
  | CSPFT_MILLISECONDS
  | CSPFT_FX
  | CSPFT_XMODEL
  | CSPFT_MATERIAL
  | CSPFT_MATERIAL_STREAM
  | CSPFT_PHYS_PRESET
  | CSPFT_SCRIPT_STRING
  | CSPFT_TRACER
  | CSPFT_SOUND_ALIAS_ID
  | CSPFT_NUM_BASE_FIELD_TYPES

record cspField_t =
  szName :: string
  iOffset :: int
  iFieldType :: int

text \<open>
  Of the resources that a field can point to, the converter reads only the name, which
  is taken to be a string (not a null pointer).
\<close>

record FxEffectDef =
  name :: string

record XModel =
  name :: string

record MaterialInfo =
  name :: string

record Material =
  info :: MaterialInfo

record PhysPreset =
  name :: string

record TracerDef =
  name :: string

text \<open>
  The structure is an untyped block of memory that the converter reads through casts.
  The model holds, for each pointer type of the switch, what the cast read at an offset
  yields: the resource pointed to, or \<open>None\<close> for a null pointer; the unsigned
  32-bit value at an offset; and the character at an offset.
\<close>

record structure_memory =
  FxEffectDef_at :: "int \<Rightarrow> FxEffectDef option"
  XModel_at :: "int \<Rightarrow> XModel option"
  Material_at :: "int \<Rightarrow> Material option"
  PhysPreset_at :: "int \<Rightarrow> PhysPreset option"
  TracerDef_at :: "int \<Rightarrow> TracerDef option"
  unsigned_at :: "int \<Rightarrow> 32 word"
  char_at :: "int \<Rightarrow> char"

text \<open>
  The base class \<^verbatim>\<open>InfoStringFromStructConverterBase\<close>, the class
  \<^verbatim>\<open>InfoString\<close> and the overridable hook for extension fields are not among the
  sources either. They are a parameter: a record of the member functions that
  \<^verbatim>\<open>FillFromBaseField\<close> and \<^verbatim>\<open>FillInfoString\<close> call, each acting on the info string
  \<open>'i\<close> under construction. A helper may fail; setting a key does not.
\<close>

record 'i InfoStringFromStructConverterBase =
  SetValueForKey :: "string \<Rightarrow> string \<Rightarrow> 'i \<Rightarrow> 'i"
  FillFromString :: "string \<Rightarrow> int \<Rightarrow> 'i \<Rightarrow> error + 'i"
  FillFromStringBuffer :: "string \<Rightarrow> int \<Rightarrow> nat \<Rightarrow> 'i \<Rightarrow> error + 'i"
  FillFromInt :: "string \<Rightarrow> int \<Rightarrow> 'i \<Rightarrow> error + 'i"
  FillFromUint :: "string \<Rightarrow> int \<Rightarrow> 'i \<Rightarrow> error + 'i"
  FillFromBool :: "string \<Rightarrow> int \<Rightarrow> 'i \<Rightarrow> error + 'i"
  FillFromQBoolean :: "string \<Rightarrow> int \<Rightarrow> 'i \<Rightarrow> error + 'i"
  FillFromFloat :: "string \<Rightarrow> int \<Rightarrow> 'i \<Rightarrow> error + 'i"
  FillFromMilliseconds :: "string \<Rightarrow> int \<Rightarrow> 'i \<Rightarrow> error + 'i"
  FillFromScriptString :: "string \<Rightarrow> int \<Rightarrow> 'i \<Rightarrow> error + 'i"
  FillFromExtensionField :: "cspField_t \<Rightarrow> 'i \<Rightarrow> error + 'i"

text \<open>
  Modelled from the spec: \<^verbatim>\<open>InfoStringFromStructConverterBase::FillFromStringBuffer\<close>,
  the string buffer reader of the base class, which is absent from the sources. The
  spec says of a fixed string buffer: read up to N characters from an inline buffer at
  offset; same omission-on-empty rule (the rule of a string field: emit key=value if
  non-empty, otherwise omit the key entirely). The text read is taken to be that of a C
  string held in the buffer: the characters from the offset on, up to the first NUL,
  and at most N of them. \<open>set_value\<close> is \<^verbatim>\<open>SetValueForKey\<close> of the info string.
\<close>

definition inline_buffer :: "structure_memory \<Rightarrow> int \<Rightarrow> nat \<Rightarrow> string" where
  "inline_buffer m_structure offset bufferSize =
     takeWhile (\<lambda>c. c \<noteq> CHR 0x00)
       (map (\<lambda>k. char_at m_structure (offset + int k)) [0..<bufferSize])"

definition InfoStringFromStructConverterBase_FillFromStringBuffer ::
  "(string \<Rightarrow> string \<Rightarrow> 'i \<Rightarrow> 'i) \<Rightarrow> structure_memory \<Rightarrow> string \<Rightarrow> int \<Rightarrow> nat \<Rightarrow> 'i
     \<Rightarrow> error + 'i" where
  "InfoStringFromStructConverterBase_FillFromStringBuffer set_value m_structure key offset
       bufferSize m_info_string =
     (let str = inline_buffer m_structure offset bufferSize in
      if str = [] then Inr m_info_string else Inr (set_value key str m_info_string))"

text \<open>
  \<^verbatim>\<open>FillFromBaseField\<close>. The switch is a chain of comparisons in the order of its
  case labels (C++ requires the labels to be distinct, so the order decides nothing).
  \<^verbatim>\<open>std::to_string\<close> of the unsigned hash is its decimal rendering.
\<close>

definition FillFromBaseField ::
  "(csParseFieldType_t \<Rightarrow> int) \<Rightarrow> 'i InfoStringFromStructConverterBase \<Rightarrow> structure_memory
     \<Rightarrow> cspField_t \<Rightarrow> 'i \<Rightarrow> error + 'i" where
  "FillFromBaseField ev base m_structure field m_info_string =
     (let t = iFieldType field; key = szName field; offset = iOffset field in
      if t = ev CSPFT_STRING then FillFromString base key offset m_info_string
      else if t = ev CSPFT_STRING_MAX_STRING_CHARS
        then FillFromStringBuffer base key offset 1024 m_info_string
      else if t = ev CSPFT_STRING_MAX_QPATH
        then FillFromStringBuffer base key offset 64 m_info_string
      else if t = ev CSPFT_STRING_MAX_OSPATH
        then FillFromStringBuffer base key offset 256 m_info_string
      else if t = ev CSPFT_INT then FillFromInt base key offset m_info_string
      else if t = ev CSPFT_UINT then FillFromUint base key offset m_info_string
      else if t = ev CSPFT_BOOL then FillFromBool base key offset m_info_string
      else if t = ev CSPFT_QBOOLEAN then FillFromQBoolean base key offset m_info_string
      else if t = ev CSPFT_FLOAT then FillFromFloat base key offset m_info_string
      else if t = ev CSPFT_MILLISECONDS then FillFromMilliseconds base key offset m_info_string
      else if t = ev CSPFT_FX then
        (case FxEffectDef_at m_structure offset of
           Some fx \<Rightarrow> Inr (SetValueForKey base key (FxEffectDef.name fx) m_info_string)
         | None \<Rightarrow> Inr (SetValueForKey base key [] m_info_string))
      else if t = ev CSPFT_XMODEL then
        (case XModel_at m_structure offset of
           Some model \<Rightarrow> Inr (SetValueForKey base key (XModel.name model) m_info_string)
         | None \<Rightarrow> Inr (SetValueForKey base key [] m_info_string))
      else if t = ev CSPFT_MATERIAL \<or> t = ev CSPFT_MATERIAL_STREAM then
        (case Material_at m_structure offset of
           Some material \<Rightarrow>
             Inr (SetValueForKey base key (MaterialInfo.name (info material)) m_info_string)
         | None \<Rightarrow> Inr (SetValueForKey base key [] m_info_string))
      else if t = ev CSPFT_PHYS_PRESET then
        (case PhysPreset_at m_structure offset of
           Some physPreset \<Rightarrow>
             Inr (SetValueForKey base key (PhysPreset.name physPreset) m_info_string)
         | None \<Rightarrow> Inr (SetValueForKey base key [] m_info_string))
      else if t = ev CSPFT_SCRIPT_STRING then FillFromScriptString base key offset m_info_string
      else if t = ev CSPFT_TRACER then
        (case TracerDef_at m_structure offset of
           Some tracer \<Rightarrow> Inr (SetValueForKey base key (TracerDef.name tracer) m_info_string)
         | None \<Rightarrow> Inr (SetValueForKey base key [] m_info_string))
      else if t = ev CSPFT_SOUND_ALIAS_ID then
        Inr (SetValueForKey base key
               (''@'' @ show_nat (unat (unsigned_at m_structure offset))) m_info_string)
      else Inl AssertionFailed)"

text \<open>
  \<^verbatim>\<open>FillInfoString\<close>: the loop over the descriptor table, which is the list of its
  \<^verbatim>\<open>m_field_count\<close> descriptors. A failure ends the conversion.
\<close>

fun FillInfoString ::
  "(csParseFieldType_t \<Rightarrow> int) \<Rightarrow> 'i InfoStringFromStructConverterBase \<Rightarrow> structure_memory
     \<Rightarrow> cspField_t list \<Rightarrow> 'i \<Rightarrow> error + 'i" where
  "FillInfoString ev base m_structure [] m_info_string = Inr m_info_string"
| "FillInfoString ev base m_structure (field # m_fields) m_info_string =
     (if \<not> iFieldType field \<ge> 0 then Inl AssertionFailed
      else
        (case
           (if iFieldType field < ev CSPFT_NUM_BASE_FIELD_TYPES
            then FillFromBaseField ev base m_structure field m_info_string
            else FillFromExtensionField base field m_info_string)
         of
           Inl e \<Rightarrow> Inl e
         | Inr m_info_string' \<Rightarrow> FillInfoString ev base m_structure m_fields m_info_string'))"

text \<open>
  Modelled from the spec: the numeric values of \<^verbatim>\<open>csParseFieldType_t\<close>, which are
  declared in a header that is absent from the sources. The spec calls the tags a
  declared range of base field types followed by extension types; the values are taken
  to count up from 0 in the order of the switch, with \<open>CSPFT_NUM_BASE_FIELD_TYPES\<close>
  last. Only the concrete examples use them.
\<close>

primrec T6_csParseFieldType_value :: "csParseFieldType_t \<Rightarrow> int" where
  "T6_csParseFieldType_value CSPFT_STRING = 0"
| "T6_csParseFieldType_value CSPFT_STRING_MAX_STRING_CHARS = 1"
| "T6_csParseFieldType_value CSPFT_STRING_MAX_QPATH = 2"
| "T6_csParseFieldType_value CSPFT_STRING_MAX_OSPATH = 3"
| "T6_csParseFieldType_value CSPFT_INT = 4"
| "T6_csParseFieldType_value CSPFT_UINT = 5"
| "T6_csParseFieldType_value CSPFT_BOOL = 6"
| "T6_csParseFieldType_value CSPFT_QBOOLEAN = 7"
| "T6_csParseFieldType_value CSPFT_FLOAT = 8"
| "T6_csParseFieldType_value CSPFT_MILLISECONDS = 9"
| "T6_csParseFieldType_value CSPFT_FX = 10"
| "T6_csParseFieldType_value CSPFT_XMODEL = 11"
| "T6_csParseFieldType_value CSPFT_MATERIAL = 12"
| "T6_csParseFieldType_value CSPFT_MATERIAL_STREAM = 13"
| "T6_csParseFieldType_value CSPFT_PHYS_PRESET = 14"
| "T6_csParseFieldType_value CSPFT_SCRIPT_STRING = 15"
| "T6_csParseFieldType_value CSPFT_TRACER = 16"
| "T6_csParseFieldType_value CSPFT_SOUND_ALIAS_ID = 17"
| "T6_csParseFieldType_value CSPFT_NUM_BASE_FIELD_TYPES = 18"

section \<open>Notions used to state the properties\<close>

text \<open>
  The matching-close rule in the words of the specification: the depth is seeded at 1
  behind the opening position; a right parenthesis lowers it, never below 0; a left
  parenthesis or a virtual function (an opcode from \<open>OP_COUNT\<close> on) raises it; every
  other entry leaves it alone. \<open>matching_close_depth c es p k\<close> is the depth after the
  entries at the positions \<open>p + 1, \<dots>, k\<close>.
\<close>

definition matching_close_step :: "operationEnum \<Rightarrow> int \<Rightarrow> expressionEntry \<Rightarrow> int" where
  "matching_close_step c depth e =
     (case e of
        EET_OPERAND _ \<Rightarrow> depth
      | EET_OPERATOR op \<Rightarrow>
          if op = OP_RIGHTPAREN c then max 0 (depth - 1)
          else if op = OP_LEFTPAREN c \<or> op \<ge> OP_COUNT c then depth + 1
          else depth)"

definition matching_close_depth :: "operationEnum \<Rightarrow> expressionEntry list \<Rightarrow> nat \<Rightarrow> nat \<Rightarrow> int" where
  "matching_close_depth c es p k = foldl (matching_close_step c) 1 (take (k - p) (drop (Suc p) es))"

text \<open>
  The pieces of text that \<^verbatim>\<open>WriteStatementOperator\<close> writes in front of an operator's
  parenthesis: the space that is owed (none in front of a comma), the keyword of a
  static dvar accessor, and the token of the opcode-name table (nothing for an opcode
  outside the table).
\<close>

definition operator_lead :: "operationEnum \<Rightarrow> bool \<Rightarrow> int \<Rightarrow> string" where
  "operator_lead c spaceNext op = (if spaceNext \<and> op \<noteq> OP_COMMA c then '' '' else [])"

definition static_dvar_keyword :: "operationEnum \<Rightarrow> int \<Rightarrow> string" where
  "static_dvar_keyword c op =
     (if op = EXP_FUNC_STATIC_DVAR_INT c then ''dvarint''
      else if op = EXP_FUNC_STATIC_DVAR_BOOL c then ''dvarbool''
      else if op = EXP_FUNC_STATIC_DVAR_FLOAT c then ''dvarfloat''
      else if op = EXP_FUNC_STATIC_DVAR_STRING c then ''dvarstring''
      else [])"

definition operator_name :: "int \<Rightarrow> string" where
  "operator_name op =
     (if 0 \<le> op \<and> nat op < length g_expFunctionNames then g_expFunctionNames ! nat op else [])"

text \<open>
  A result with a text put in front of what was written.
\<close>

definition after_text :: "string \<Rightarrow> error + string \<Rightarrow> error + string" where
  "after_text pre r = (case r of Inl e \<Rightarrow> Inl e | Inr t \<Rightarrow> Inr (pre @ t))"

definition after_text_cursor ::
  "string \<Rightarrow> error + (nat \<times> bool \<times> string) \<Rightarrow> error + (nat \<times> bool \<times> string)" where
  "after_text_cursor pre r =
     (case r of Inl e \<Rightarrow> Inl e | Inr (p, sp, t) \<Rightarrow> Inr (p, sp, pre @ t))"

text \<open>
  The first entry of the statement exists and is an operator that is an explicit left
  parenthesis.
\<close>

definition first_entry_is_left_parenthesis :: "operationEnum \<Rightarrow> Statement_s \<Rightarrow> bool" where
  "first_entry_is_left_parenthesis c statement =
     (1 \<le> sint (numEntries statement) \<and>
      (case entries statement of
         EET_OPERATOR op # _ \<Rightarrow> op = OP_LEFTPAREN c
       | _ \<Rightarrow> False))"

text \<open>
  The supporting function table of a statement: the first \<open>totalFunctions\<close> handles of
  \<^verbatim>\<open>uifunctions.functions\<close>, if there is supporting data and the array is not null.
\<close>

definition function_table :: "Statement_s \<Rightarrow> nat list option" where
  "function_table statement =
     (case supportingData statement of
        None \<Rightarrow> None
      | Some sd \<Rightarrow>
          (case functions_array (uifunctions sd) of
             None \<Rightarrow> None
           | Some fs \<Rightarrow> Some (take (nat (totalFunctions (uifunctions sd))) fs)))"

text \<open>
  One pass through the body of the \<^verbatim>\<open>while\<close> loop of \<^verbatim>\<open>WriteStatementEntryRange\<close>,
  on the loop's variables (the cursor, the flag and the stream), and the loop run with a
  budget of passes: \<open>None\<close> says that the budget ran out before the cursor reached the
  end of the range.
\<close>

definition WriteStatementEntryRange_body ::
  "operationEnum \<Rightarrow> (32 word \<Rightarrow> string) \<Rightarrow> Statement_s \<Rightarrow> nat \<times> bool \<times> string
     \<Rightarrow> error + (nat \<times> bool \<times> string)" where
  "WriteStatementEntryRange_body c show_float statement s =
     (case s of (currentPos, spaceNext, out) \<Rightarrow>
        (case array_read (entries statement) currentPos of
           Inl e \<Rightarrow> Inl e
         | Inr expEntry \<Rightarrow>
             (case expEntry of
                EET_OPERATOR _ \<Rightarrow>
                  WriteStatementOperator c show_float statement currentPos spaceNext out
              | EET_OPERAND _ \<Rightarrow>
                  WriteStatementOperand show_float statement currentPos spaceNext out)))"

fun WriteStatementEntryRange_iterations ::
  "nat \<Rightarrow> operationEnum \<Rightarrow> (32 word \<Rightarrow> string) \<Rightarrow> Statement_s \<Rightarrow> nat
     \<Rightarrow> nat \<times> bool \<times> string \<Rightarrow> (error + string) option" where
  "WriteStatementEntryRange_iterations 0 c show_float statement endOffset s =
     (if fst s < endOffset then None else Some (Inr (snd (snd s))))"
| "WriteStatementEntryRange_iterations (Suc k) c show_float statement endOffset s =
     (if fst s < endOffset then
        (case WriteStatementEntryRange_body c show_float statement s of
           Inl e \<Rightarrow> Some (Inl e)
         | Inr s' \<Rightarrow> WriteStatementEntryRange_iterations k c show_float statement endOffset s')
      else Some (Inr (snd (snd s))))"

text \<open>The examples hold no float operand; they run with a formatter that writes nothing.\<close>

definition no_float :: "32 word \<Rightarrow> string" where
  "no_float w = []"

text \<open>
  For the concrete examples the absent base class is run as a recorder: the info string
  is the list of the calls made on it, each with its arguments, in order.
\<close>

datatype base_call =
    Call_SetValueForKey string string
  | Call_FillFromString string int
  | Call_FillFromStringBuffer string int nat
  | Call_FillFromInt string int
  | Call_FillFromUint string int
  | Call_FillFromBool string int
  | Call_FillFromQBoolean string int
  | Call_FillFromFloat string int
  | Call_FillFromMilliseconds string int
  | Call_FillFromScriptString string int
  | Call_FillFromExtensionField cspField_t

definition recording_base :: "base_call list InfoStringFromStructConverterBase" where
  "recording_base =
     \<lparr>SetValueForKey = (\<lambda>key val log. log @ [Call_SetValueForKey key val]),
      FillFromString = (\<lambda>key offset log. Inr (log @ [Call_FillFromString key offset])),
      FillFromStringBuffer =
        (\<lambda>key offset n log. Inr (log @ [Call_FillFromStringBuffer key offset n])),
      FillFromInt = (\<lambda>key offset log. Inr (log @ [Call_FillFromInt key offset])),
      FillFromUint = (\<lambda>key offset log. Inr (log @ [Call_FillFromUint key offset])),
      FillFromBool = (\<lambda>key offset log. Inr (log @ [Call_FillFromBool key offset])),
      FillFromQBoolean = (\<lambda>key offset log. Inr (log @ [Call_FillFromQBoolean key offset])),
      FillFromFloat = (\<lambda>key offset log. Inr (log @ [Call_FillFromFloat key offset])),
      FillFromMilliseconds =
        (\<lambda>key offset log. Inr (log @ [Call_FillFromMilliseconds key offset])),
      FillFromScriptString =
        (\<lambda>key offset log. Inr (log @ [Call_FillFromScriptString key offset])),
      FillFromExtensionField = (\<lambda>field log. Inr (log @ [Call_FillFromExtensionField field]))\<rparr>"

text \<open>
  A structure with an effect at offset 8 and null pointers everywhere else, and with the
  text \<open>hud\<close> in an inline buffer at offset 16, which is otherwise filled with NUL.
\<close>

definition example_structure :: structure_memory where
  "example_structure =
     \<lparr>FxEffectDef_at = (\<lambda>offset. if offset = 8 then Some \<lparr>FxEffectDef.name = ''smoke''\<rparr> else None),
      XModel_at = (\<lambda>offset. None),
      Material_at = (\<lambda>offset. None),
      PhysPreset_at = (\<lambda>offset. None),
      TracerDef_at = (\<lambda>offset. None),
      unsigned_at = (\<lambda>offset. 0),
      char_at =
        (\<lambda>offset. if offset = 16 then CHR ''h'' else if offset = 17 then CHR ''u''
           else if offset = 18 then CHR ''d'' else CHR 0x00)\<rparr>"

text \<open>
  The capacity with which a field is read through the string buffer reader of the base
  class, if \<^verbatim>\<open>FillFromBaseField\<close> reads it so: the reader is called once, with the
  field's key and offset, and nothing else is done to the info string.
\<close>

definition string_buffer_capacity ::
  "(csParseFieldType_t \<Rightarrow> int) \<Rightarrow> structure_memory \<Rightarrow> cspField_t \<Rightarrow> nat option" where
  "string_buffer_capacity ev m_structure field =
     (case FillFromBaseField ev recording_base m_structure field [] of
        Inr [Call_FillFromStringBuffer key offset n] \<Rightarrow>
          (if key = szName field \<and> offset = iOffset field then Some n else None)
      | _ \<Rightarrow> None)"

text \<open>
  The static dvar table of a statement (the first \<open>numStaticDvars\<close> elements of
  \<^verbatim>\<open>staticDvarList.staticDvars\<close>), the text that a static dvar accessor writes
  between its parentheses for the entry that follows it, the condition that the
  supporting arrays hold as many elements as their counts say, and the condition that
  the last entry of the statement is a static dvar accessor.
\<close>

definition static_dvar_table :: "Statement_s \<Rightarrow> StaticDvar option list option" where
  "static_dvar_table statement =
     (case supportingData statement of
        None \<Rightarrow> None
      | Some sd \<Rightarrow>
          (case staticDvars (staticDvarList sd) of
             None \<Rightarrow> None
           | Some dvars \<Rightarrow> Some (take (nat (numStaticDvars (staticDvarList sd))) dvars)))"

definition static_dvar_argument :: "Statement_s \<Rightarrow> expressionEntry \<Rightarrow> string" where
  "static_dvar_argument statement e =
     (case e of
        EET_OPERAND (VAL_INT intVal) \<Rightarrow>
          (case static_dvar_table statement of
             None \<Rightarrow> ''#INVALID_DVAR_INDEX''
           | Some dvars \<Rightarrow>
               if 0 \<le> intVal \<and> nat intVal < length dvars then
                 (case dvars ! nat intVal of
                    None \<Rightarrow> []
                  | Some dvar \<Rightarrow> (case dvarName dvar of None \<Rightarrow> [] | Some n \<Rightarrow> n))
               else ''#INVALID_DVAR_INDEX'')
      | _ \<Rightarrow> ''#INVALID_DVAR_OPERAND'')"

definition supporting_arrays_allocated :: "Statement_s \<Rightarrow> bool" where
  "supporting_arrays_allocated statement =
     (case supportingData statement of
        None \<Rightarrow> True
      | Some sd \<Rightarrow>
          (case functions_array (uifunctions sd) of
             None \<Rightarrow> True
           | Some fs \<Rightarrow> nat (totalFunctions (uifunctions sd)) \<le> length fs) \<and>
          (case staticDvars (staticDvarList sd) of
             None \<Rightarrow> True
           | Some dvars \<Rightarrow> nat (numStaticDvars (staticDvarList sd)) \<le> length dvars))"

definition static_dvar_accessor_last :: "operationEnum \<Rightarrow> Statement_s \<Rightarrow> bool" where
  "static_dvar_accessor_last c statement =
     (entries statement \<noteq> [] \<and>
      length (entries statement) = nat (sint (numEntries statement)) \<and>
      (case last (entries statement) of
         EET_OPERATOR op \<Rightarrow>
           op \<noteq> OP_LEFTPAREN c \<and> EXP_FUNC_STATIC_DVAR_INT c \<le> op \<and>
           op \<le> EXP_FUNC_STATIC_DVAR_STRING c
       | EET_OPERAND _ \<Rightarrow> False))"

section \<open>The matching closing parenthesis (C1)\<close>

lemma size_t_cast_sint:
  fixes w :: "32 word"
  shows "0 \<le> sint w \<Longrightarrow> size_t_cast (sint w) = nat (sint w)"
proof -
  assume nonneg: "0 \<le> sint w"
  have "sint w < 2 ^ (LENGTH(32) - 1)" by (rule sint_lt)
  then have "sint w < 2 ^ 64" by simp
  with nonneg show ?thesis by (simp add: size_t_cast_def)
qed

lemma scan_from:
  assumes len: "n \<le> length es" and es: "es = entries st"
    and rp: "OP_RIGHTPAREN c \<noteq> OP_LEFTPAREN c" "OP_RIGHTPAREN c < OP_COUNT c"
  shows "pos \<le> n \<Longrightarrow> 0 < d \<Longrightarrow>
    \<exists>r. FindStatementClosingParenthesis_loop c st n d pos = Inr r \<and> pos \<le> r \<and> r \<le> n \<and>
      (\<forall>k. pos \<le> k \<and> k < r \<longrightarrow> 0 < foldl (matching_close_step c) d (take (Suc k - pos) (drop pos es))) \<and>
      (r < n \<longrightarrow> foldl (matching_close_step c) d (take (Suc r - pos) (drop pos es)) = 0)"
proof (induction "n - pos" arbitrary: pos d)
  case 0
  then have "pos = n" by simp
  then show ?case by (simp add: FindStatementClosingParenthesis_loop.simps [of c st n d n])
next
  case (Suc m)
  then have lt: "pos < n" by simp
  with len es have rd: "array_read (entries st) pos = Inr (es ! pos)"
    by (simp add: array_read_def)
  define d' where "d' = matching_close_step c d (es ! pos)"
  have unroll: "take (Suc k - pos) (drop pos es) = es ! pos # take (Suc k - Suc pos) (drop (Suc pos) es)"
    if "pos \<le> k" for k
  proof -
    from lt len have "drop pos es = es ! pos # drop (Suc pos) es"
      by (simp add: Cons_nth_drop_Suc)
    moreover from that have "Suc k - pos = Suc (Suc k - Suc pos)" by simp
    ultimately show ?thesis by simp
  qed
  have fold_eq: "foldl (matching_close_step c) d (take (Suc k - pos) (drop pos es)) =
      foldl (matching_close_step c) d' (take (Suc k - Suc pos) (drop (Suc pos) es))"
    if "pos \<le> k" for k
    using unroll [OF that] by (simp add: d'_def)
  have at_pos: "foldl (matching_close_step c) d (take (Suc pos - pos) (drop pos es)) = d'"
    using fold_eq [of pos] by simp
  show ?case
  proof (cases "d' = 0")
    case True
    with \<open>0 < d\<close> rp have "FindStatementClosingParenthesis_loop c st n d pos = Inr pos"
      by (auto simp: FindStatementClosingParenthesis_loop.simps [of c st n d pos] lt rd d'_def
          matching_close_step_def Let_def split: expressionEntry.splits if_splits)
    with True at_pos lt show ?thesis by auto
  next
    case False
    with \<open>0 < d\<close> have pos': "0 < d'"
      by (auto simp: d'_def matching_close_step_def split: expressionEntry.splits if_splits)
    from False \<open>0 < d\<close> rp have step: "FindStatementClosingParenthesis_loop c st n d pos =
        FindStatementClosingParenthesis_loop c st n d' (Suc pos)"
      by (auto simp: FindStatementClosingParenthesis_loop.simps [of c st n d pos] lt rd d'_def
          matching_close_step_def Let_def split: expressionEntry.splits if_splits)
    from Suc.hyps(2) have "m = n - Suc pos" by simp
    from Suc.hyps(1) [OF this _ pos'] lt
    obtain r where r: "FindStatementClosingParenthesis_loop c st n d' (Suc pos) = Inr r"
      "Suc pos \<le> r" "r \<le> n"
      "\<forall>k. Suc pos \<le> k \<and> k < r \<longrightarrow> 0 < foldl (matching_close_step c) d' (take (Suc k - Suc pos) (drop (Suc pos) es))"
      "r < n \<longrightarrow> foldl (matching_close_step c) d' (take (Suc r - Suc pos) (drop (Suc pos) es)) = 0"
      by auto
    have "0 < foldl (matching_close_step c) d (take (Suc k - pos) (drop pos es))"
      if "pos \<le> k" "k < r" for k
    proof (cases "k = pos")
      case True
      with at_pos pos' show ?thesis by simp
    next
      case False
      with that have "Suc pos \<le> k" by simp
      with r(4) that fold_eq [of k] show ?thesis by simp
    qed
    moreover have "r < n \<longrightarrow> foldl (matching_close_step c) d (take (Suc r - pos) (drop pos es)) = 0"
      using r(2,5) fold_eq [of r] by simp
    ultimately show ?thesis using step r(1-3) by auto
  qed
qed

lemma FindStatementClosingParenthesis_loop_total:
  assumes len: "n \<le> length (entries st)"
  shows "\<exists>r. FindStatementClosingParenthesis_loop c st n d pos = Inr r"
proof (induction "n - pos" arbitrary: pos d)
  case 0
  then show ?case by (simp add: FindStatementClosingParenthesis_loop.simps [of c st n d pos])
next
  case (Suc m)
  then have lt: "pos < n" by simp
  with len have rd: "array_read (entries st) pos = Inr (entries st ! pos)"
    by (simp add: array_read_def)
  from Suc.hyps(2) have m: "m = n - (pos + 1)" by simp
  show ?case
    using Suc.hyps(1) [OF m]
    by (cases "entries st ! pos")
      (auto simp: FindStatementClosingParenthesis_loop.simps [of c st n d pos] lt rd Let_def)
qed

lemma FindStatementClosingParenthesis_total:
  assumes "nat (sint (numEntries st)) \<le> length (entries st)" and "p < nat (sint (numEntries st))"
  shows "\<exists>r. FindStatementClosingParenthesis c st p = Inr r \<and> p < r \<and> r \<le> nat (sint (numEntries st))"
proof -
  from assms(2) have nonneg: "0 \<le> sint (numEntries st)" by simp
  note cast = size_t_cast_sint [OF nonneg]
  from FindStatementClosingParenthesis_loop_total [of "nat (sint (numEntries st))" st c 1 "p + 1"] assms(1)
  obtain r where "FindStatementClosingParenthesis_loop c st (nat (sint (numEntries st))) 1 (p + 1) = Inr r"
    by blast
  with assms(2) nonneg have "FindStatementClosingParenthesis c st p = Inr r"
    by (simp add: FindStatementClosingParenthesis_def cast)
  with FindStatementClosingParenthesis_bounds [of c st p r] show ?thesis
    by (simp add: cast)
qed

lemma first_zero_unique:
  fixes D :: "nat \<Rightarrow> int"
  assumes ex: "\<exists>r. F = Inr r \<and> p < r \<and> r \<le> n \<and> (\<forall>k. p < k \<and> k < r \<longrightarrow> 0 < D k) \<and> (r < n \<longrightarrow> D r = 0)"
    and m: "p < m" "m < n" "D m = 0" and before: "\<forall>k. p < k \<and> k < m \<longrightarrow> 0 < D k"
  shows "F = Inr (m::nat)"
proof -
  from ex obtain r where R: "F = Inr r \<and> p < r \<and> r \<le> n \<and> (\<forall>k. p < k \<and> k < r \<longrightarrow> 0 < D k) \<and> (r < n \<longrightarrow> D r = 0)" ..
  then have r: "F = Inr r" "p < r" "r \<le> n" "\<forall>k. p < k \<and> k < r \<longrightarrow> 0 < D k" "r < n \<longrightarrow> D r = 0"
    by simp_all
  have "\<not> m < r"
  proof
    assume "m < r"
    with r(4) m(1) have "0 < D m" by simp
    with m(3) show False by simp
  qed
  moreover have "\<not> r < m"
  proof
    assume "r < m"
    with before r(2) have "0 < D r" by simp
    moreover from \<open>r < m\<close> m(2) r(5) have "D r = 0" by simp
    ultimately show False by simp
  qed
  ultimately have "r = m" by simp
  with r(1) show ?thesis by simp
qed

text \<open>
  C1. Let the entry array hold at least \<open>numEntries\<close> entries, let \<open>p\<close> be a position
  in it, and let the right parenthesis be a named operator other than the left
  parenthesis. Then \<open>FindStatementClosingParenthesis\<close> returns a position \<open>r\<close> behind
  \<open>p\<close> such that the depth of the matching-close rule is positive at every position
  strictly between \<open>p\<close> and \<open>r\<close>, and \<open>r\<close> is either the end of the array or a position
  where the depth is 0: the first position where the depth reaches 0 if there is one,
  and the end of the array otherwise. The witness runs the two examples of the
  specification: \<open>[+, )]\<close> is matched at position 1, and in \<open>[+, (, ), )]\<close> the first
  right parenthesis is skipped and the second, at position 3, is matched.
\<close>

theorem FindStatementClosingParenthesis_matching_close:
  assumes "nat (sint (numEntries statement)) \<le> length (entries statement)"
    and "p < nat (sint (numEntries statement))"
    and "OP_RIGHTPAREN c \<noteq> OP_LEFTPAREN c" and "OP_RIGHTPAREN c < OP_COUNT c"
  shows "\<exists>r. FindStatementClosingParenthesis c statement p = Inr r \<and>
           p < r \<and> r \<le> nat (sint (numEntries statement)) \<and>
           (\<forall>k. p < k \<and> k < r \<longrightarrow> 0 < matching_close_depth c (entries statement) p k) \<and>
           (r < nat (sint (numEntries statement)) \<longrightarrow>
              matching_close_depth c (entries statement) p r = 0)"
proof -
  let ?n = "nat (sint (numEntries statement))"
  from assms(2) have nonneg: "0 \<le> sint (numEntries statement)" by simp
  note cast = size_t_cast_sint [OF nonneg]
  from assms(2) have "p + 1 \<le> ?n" by simp
  from scan_from [OF assms(1) refl assms(3,4) this, of 1]
  obtain r where r: "FindStatementClosingParenthesis_loop c statement ?n 1 (p + 1) = Inr r"
    "p + 1 \<le> r" "r \<le> ?n"
    "\<forall>k. p + 1 \<le> k \<and> k < r \<longrightarrow>
       0 < foldl (matching_close_step c) 1 (take (Suc k - (p + 1)) (drop (p + 1) (entries statement)))"
    "r < ?n \<longrightarrow>
       foldl (matching_close_step c) 1 (take (Suc r - (p + 1)) (drop (p + 1) (entries statement))) = 0"
    by auto
  from r(1) assms(2) nonneg have "FindStatementClosingParenthesis c statement p = Inr r"
    by (simp add: FindStatementClosingParenthesis_def cast)
  moreover from r(2) have "p < r" by simp
  moreover have "\<forall>k. p < k \<and> k < r \<longrightarrow> 0 < matching_close_depth c (entries statement) p k"
    using r(4) by (simp add: matching_close_depth_def)
  moreover have "r < ?n \<longrightarrow> matching_close_depth c (entries statement) p r = 0"
    using r(5) by (simp add: matching_close_depth_def)
  ultimately show ?thesis using r(3) by blast
qed

theorem FindStatementClosingParenthesis_matching_close_witness:
  "FindStatementClosingParenthesis IW4_operationEnum
     \<lparr>numEntries = 2, entries = [EET_OPERATOR 5, EET_OPERATOR 1], supportingData = None\<rparr> 0 = Inr 1
   \<and> FindStatementClosingParenthesis IW4_operationEnum
     \<lparr>numEntries = 4,
      entries = [EET_OPERATOR 5, EET_OPERATOR 16, EET_OPERATOR 1, EET_OPERATOR 1],
      supportingData = None\<rparr> 0 = Inr 3"
proof
  let ?c = IW4_operationEnum
  let ?es = "[EET_OPERATOR 5, EET_OPERATOR 1]"
  let ?s = "\<lparr>numEntries = 2, entries = ?es, supportingData = None\<rparr>"
  have c: "OP_RIGHTPAREN ?c \<noteq> OP_LEFTPAREN ?c" "OP_RIGHTPAREN ?c < OP_COUNT ?c"
    by (simp_all add: IW4_operationEnum_def)
  have wf: "nat (sint (numEntries ?s)) \<le> length (entries ?s)" "0 < nat (sint (numEntries ?s))"
    by simp_all
  have ex: "\<exists>r. FindStatementClosingParenthesis ?c ?s 0 = Inr r \<and> 0 < r \<and> r \<le> 2 \<and>
          (\<forall>k. 0 < k \<and> k < r \<longrightarrow> 0 < matching_close_depth ?c ?es 0 k) \<and>
          (r < 2 \<longrightarrow> matching_close_depth ?c ?es 0 r = 0)"
    using FindStatementClosingParenthesis_matching_close [OF wf c] by simp
  have d: "matching_close_depth ?c ?es 0 1 = 0"
    by (simp add: matching_close_depth_def matching_close_step_def IW4_operationEnum_def)
  show "FindStatementClosingParenthesis ?c ?s 0 = Inr 1"
    by (rule first_zero_unique [OF ex _ _ d]) simp_all
next
  let ?c = IW4_operationEnum
  let ?es = "[EET_OPERATOR 5, EET_OPERATOR 16, EET_OPERATOR 1, EET_OPERATOR 1]"
  let ?s = "\<lparr>numEntries = 4, entries = ?es, supportingData = None\<rparr>"
  have c: "OP_RIGHTPAREN ?c \<noteq> OP_LEFTPAREN ?c" "OP_RIGHTPAREN ?c < OP_COUNT ?c"
    by (simp_all add: IW4_operationEnum_def)
  have wf: "nat (sint (numEntries ?s)) \<le> length (entries ?s)" "0 < nat (sint (numEntries ?s))"
    by simp_all
  have ex: "\<exists>r. FindStatementClosingParenthesis ?c ?s 0 = Inr r \<and> 0 < r \<and> r \<le> 4 \<and>
          (\<forall>k. 0 < k \<and> k < r \<longrightarrow> 0 < matching_close_depth ?c ?es 0 k) \<and>
          (r < 4 \<longrightarrow> matching_close_depth ?c ?es 0 r = 0)"
    using FindStatementClosingParenthesis_matching_close [OF wf c] by simp
  have d: "matching_close_depth ?c ?es 0 1 = 2"
    "matching_close_depth ?c ?es 0 2 = 1"
    "matching_close_depth ?c ?es 0 3 = 0"
    by (simp_all add: matching_close_depth_def matching_close_step_def IW4_operationEnum_def
        numeral_3_eq_3 numeral_2_eq_2)
  have before: "\<forall>k. 0 < k \<and> k < 3 \<longrightarrow> 0 < matching_close_depth ?c ?es 0 k"
  proof (intro allI impI)
    fix k :: nat
    assume "0 < k \<and> k < 3"
    then have "k = 1 \<or> k = 2" by arith
    with d(1,2) show "0 < matching_close_depth ?c ?es 0 k" by auto
  qed
  show "FindStatementClosingParenthesis ?c ?s 0 = Inr 3"
    by (rule first_zero_unique [OF ex _ _ d(3) before]) simp_all
qed

section \<open>The branches of WriteStatementOperator\<close>

text \<open>
  The four branches of \<^verbatim>\<open>WriteStatementOperator\<close>, read off its definition, and the
  cases of the loop of \<^verbatim>\<open>WriteStatementEntryRange\<close>.
\<close>

lemma operator_lead_eq:
  "(if sp \<and> op \<noteq> OP_COMMA c then out @ '' '' else out) = out @ operator_lead c sp op"
  by (simp add: operator_lead_def)

lemma operator_name_eq:
  "(if 0 \<le> op \<and> nat op < length g_expFunctionNames then out1 @ g_expFunctionNames ! nat op else out1)
     = out1 @ operator_name op"
  by (simp add: operator_name_def)

lemma static_dvar_keyword_eq:
  "(if op = EXP_FUNC_STATIC_DVAR_INT c then out1 @ ''dvarint''
    else if op = EXP_FUNC_STATIC_DVAR_BOOL c then out1 @ ''dvarbool''
    else if op = EXP_FUNC_STATIC_DVAR_FLOAT c then out1 @ ''dvarfloat''
    else if op = EXP_FUNC_STATIC_DVAR_STRING c then out1 @ ''dvarstring''
    else out1) = out1 @ static_dvar_keyword c op"
  by (simp add: static_dvar_keyword_def)

lemma WriteStatementOperator_paren:
  assumes "array_read (entries st) p = Inr (EET_OPERATOR op)" and "op = OP_LEFTPAREN c"
    and "FindStatementClosingParenthesis c st p = Inr closing"
  shows "WriteStatementOperator c sf st p sp out =
    (case WriteStatementEntryRange c sf st (p + 1) closing (out @ operator_lead c sp op @ ''('') of
       Inl e \<Rightarrow> Inl e | Inr o2 \<Rightarrow> Inr (closing + 1, True, o2 @ '')''))"
  by (subst WriteStatementOperator.simps)
    (simp add: assms operator_lead_eq Let_def split del: if_split)

lemma WriteStatementOperator_dvar:
  assumes "array_read (entries st) p = Inr (EET_OPERATOR op)" and "op \<noteq> OP_LEFTPAREN c"
    and "EXP_FUNC_STATIC_DVAR_INT c \<le> op" "op \<le> EXP_FUNC_STATIC_DVAR_STRING c"
    and "FindStatementClosingParenthesis c st p = Inr closing"
  shows "WriteStatementOperator c sf st p sp out =
    (case (if size_t_cast (int closing - int p + 1) \<ge> 1
           then WriteStatementOperator_staticDvar st p
                  (out @ operator_lead c sp op @ static_dvar_keyword c op @ ''('')
           else Inr (out @ operator_lead c sp op @ static_dvar_keyword c op @ ''('')) of
       Inl e \<Rightarrow> Inl e | Inr o3 \<Rightarrow> Inr (closing + 1, True, o3 @ '')''))"
  by (subst WriteStatementOperator.simps)
    (simp add: assms operator_lead_eq static_dvar_keyword_eq Let_def split del: if_split
      cong: if_cong)

lemma WriteStatementOperator_func:
  assumes "array_read (entries st) p = Inr (EET_OPERATOR op)" and "op \<noteq> OP_LEFTPAREN c"
    and "\<not> (EXP_FUNC_STATIC_DVAR_INT c \<le> op \<and> op \<le> EXP_FUNC_STATIC_DVAR_STRING c)"
    and "OP_COUNT c \<le> op"
    and "FindStatementClosingParenthesis c st p = Inr closing"
  shows "WriteStatementOperator c sf st p sp out =
    (case WriteStatementEntryRange c sf st (p + 1) closing
            (out @ operator_lead c sp op @ operator_name op @ ''('') of
       Inl e \<Rightarrow> Inl e | Inr o3 \<Rightarrow> Inr (closing + 1, op \<noteq> OP_NEG c, o3 @ '')''))"
  by (subst WriteStatementOperator.simps)
    (simp add: assms operator_lead_eq operator_name_eq Let_def split del: if_split)

lemma WriteStatementOperator_plain:
  assumes "array_read (entries st) p = Inr (EET_OPERATOR op)" and "op \<noteq> OP_LEFTPAREN c"
    and "\<not> (EXP_FUNC_STATIC_DVAR_INT c \<le> op \<and> op \<le> EXP_FUNC_STATIC_DVAR_STRING c)"
    and "\<not> OP_COUNT c \<le> op"
  shows "WriteStatementOperator c sf st p sp out =
    Inr (p + 1, op \<noteq> OP_NEG c, out @ operator_lead c sp op @ operator_name op)"
  by (subst WriteStatementOperator.simps)
    (simp add: assms operator_lead_eq operator_name_eq Let_def split del: if_split)

lemma WriteStatementOperator_errors:
  "array_read (entries st) p = Inl e \<Longrightarrow> WriteStatementOperator c sf st p sp out = Inl e"
  "array_read (entries st) p = Inr (EET_OPERAND x) \<Longrightarrow>
     WriteStatementOperator c sf st p sp out = Inl InactiveUnionMember"
  by (subst WriteStatementOperator.simps, simp)+

lemma WriteStatementOperator_no_closing:
  assumes rd: "array_read (entries st) p = Inr (EET_OPERATOR op)"
    and op: "op = OP_LEFTPAREN c \<or> (EXP_FUNC_STATIC_DVAR_INT c \<le> op \<and> op \<le> EXP_FUNC_STATIC_DVAR_STRING c)
           \<or> OP_COUNT c \<le> op"
    and no: "FindStatementClosingParenthesis c st p = Inl e"
  shows "WriteStatementOperator c sf st p sp out = Inl e"
proof (cases "op = OP_LEFTPAREN c")
  case True
  show ?thesis
    by (subst WriteStatementOperator.simps) (simp add: rd no True Let_def split del: if_split)
next
  case nparen: False
  show ?thesis
  proof (cases "EXP_FUNC_STATIC_DVAR_INT c \<le> op \<and> op \<le> EXP_FUNC_STATIC_DVAR_STRING c")
    case True
    show ?thesis
      by (subst WriteStatementOperator.simps)
        (simp add: rd no nparen True Let_def split del: if_split)
  next
    case False
    with op nparen have cnt: "OP_COUNT c \<le> op" by blast
    show ?thesis
      by (subst WriteStatementOperator.simps)
        (simp add: rd no nparen False cnt Let_def split del: if_split)
  qed
qed

lemma WriteStatementEntryRange_loop_unfold:
  "\<not> p < e \<Longrightarrow> WriteStatementEntryRange_loop c sf st e p sp out = Inr out"
  "p < e \<Longrightarrow> array_read (entries st) p = Inl err \<Longrightarrow>
     WriteStatementEntryRange_loop c sf st e p sp out = Inl err"
  "p < e \<Longrightarrow> array_read (entries st) p = Inr (EET_OPERATOR op) \<Longrightarrow>
     WriteStatementEntryRange_loop c sf st e p sp out =
       (case WriteStatementOperator c sf st p sp out of
          Inl err \<Rightarrow> Inl err
        | Inr (p', sp', out') \<Rightarrow> WriteStatementEntryRange_loop c sf st e p' sp' out')"
  "p < e \<Longrightarrow> array_read (entries st) p = Inr (EET_OPERAND x) \<Longrightarrow>
     WriteStatementEntryRange_loop c sf st e p sp out =
       (case WriteStatementOperand sf st p sp out of
          Inl err \<Rightarrow> Inl err
        | Inr (p', sp', out') \<Rightarrow> WriteStatementEntryRange_loop c sf st e p' sp' out')"
  by (subst WriteStatementEntryRange_loop.simps, simp)+

section \<open>The writers only append to the stream\<close>

text \<open>
  Whatever the stream holds already stays in front of what a writer adds, and what is
  added does not depend on it. Hence the text of a range can be taken from a run on the
  empty stream.
\<close>

lemma after_text_simps [simp]:
  "after_text pre (Inl e) = Inl e"
  "after_text pre (Inr t) = Inr (pre @ t)"
  "after_text_cursor pre (Inl e) = Inl e"
  "after_text_cursor pre (Inr (p, sp, t)) = Inr (p, sp, pre @ t)"
  by (simp_all add: after_text_def after_text_cursor_def)

lemma WriteStatementOperand_append:
  "WriteStatementOperand sf st p sp (pre @ out) =
     after_text_cursor pre (WriteStatementOperand sf st p sp out)"
  by (auto simp: WriteStatementOperand_def Let_def
      split: sum.splits expressionEntry.splits Operand.splits option.splits)

lemma WriteStatementOperator_staticDvar_append:
  "WriteStatementOperator_staticDvar st p (pre @ out) =
     after_text pre (WriteStatementOperator_staticDvar st p out)"
  by (auto simp: WriteStatementOperator_staticDvar_def
      split: sum.splits expressionEntry.splits Operand.splits option.splits)

lemma WriteStatement_append:
  "\<forall>pre. WriteStatementOperator c sf st p sp (pre @ out) =
     after_text_cursor pre (WriteStatementOperator c sf st p sp out)"
  "\<forall>pre. WriteStatementEntryRange_loop c sf st e p sp (pre @ out) =
     after_text pre (WriteStatementEntryRange_loop c sf st e p sp out)"
  "\<forall>pre. WriteStatementEntryRange c sf st s e (pre @ out) =
     after_text pre (WriteStatementEntryRange c sf st s e out)"
proof (induction c sf st p sp out and c sf st e p sp out and c sf st s e out
    rule: WriteStatementOperator_WriteStatementEntryRange_loop_WriteStatementEntryRange.induct)
  case (1 c sf st p sp out)
  show ?case
  proof
    fix pre
    show "WriteStatementOperator c sf st p sp (pre @ out) =
       after_text_cursor pre (WriteStatementOperator c sf st p sp out)"
    proof (cases "array_read (entries st) p")
      case (Inl err)
      then show ?thesis by (simp add: WriteStatementOperator_errors)
    next
      case (Inr b)
      show ?thesis
      proof (cases b)
        case (EET_OPERAND x)
        with Inr show ?thesis by (simp add: WriteStatementOperator_errors)
      next
        case (EET_OPERATOR op)
        with Inr have rd: "array_read (entries st) p = Inr (EET_OPERATOR op)" by simp
        consider (paren) "op = OP_LEFTPAREN c"
          | (dvar) "op \<noteq> OP_LEFTPAREN c"
              "EXP_FUNC_STATIC_DVAR_INT c \<le> op" "op \<le> EXP_FUNC_STATIC_DVAR_STRING c"
          | (func) "op \<noteq> OP_LEFTPAREN c"
              "\<not> (EXP_FUNC_STATIC_DVAR_INT c \<le> op \<and> op \<le> EXP_FUNC_STATIC_DVAR_STRING c)"
              "OP_COUNT c \<le> op"
          | (plain) "op \<noteq> OP_LEFTPAREN c"
              "\<not> (EXP_FUNC_STATIC_DVAR_INT c \<le> op \<and> op \<le> EXP_FUNC_STATIC_DVAR_STRING c)"
              "\<not> OP_COUNT c \<le> op"
          by blast
        then show ?thesis
        proof cases
          case plain
          show ?thesis by (simp add: WriteStatementOperator_plain [OF rd plain])
        next
          case paren
          show ?thesis
          proof (cases "FindStatementClosingParenthesis c st p")
            case (Inl err)
            with rd paren show ?thesis by (simp add: WriteStatementOperator_no_closing)
          next
            case closing: (Inr closing)
            let ?o = "out @ operator_lead c sp op @ ''(''"
            from "1.IH"(1) [OF Inr EET_OPERATOR refl paren closing]
            have I: "WriteStatementEntryRange c sf st (p + 1) closing (pre @ ?o) =
                after_text pre (WriteStatementEntryRange c sf st (p + 1) closing ?o)"
              by (simp add: operator_lead_eq)
            show ?thesis
              using I
              by (cases "WriteStatementEntryRange c sf st (p + 1) closing ?o")
                (simp_all add: WriteStatementOperator_paren [OF rd paren closing])
          qed
        next
          case func
          show ?thesis
          proof (cases "FindStatementClosingParenthesis c st p")
            case (Inl err)
            with rd func show ?thesis by (simp add: WriteStatementOperator_no_closing)
          next
            case closing: (Inr closing)
            let ?o = "out @ operator_lead c sp op @ operator_name op @ ''(''"
            from "1.IH"(2) [OF Inr EET_OPERATOR refl func(1,2) refl func(3) closing]
            have I: "WriteStatementEntryRange c sf st (p + 1) closing (pre @ ?o) =
                after_text pre (WriteStatementEntryRange c sf st (p + 1) closing ?o)"
              by (simp add: operator_lead_eq operator_name_eq)
            show ?thesis
              using I
              by (cases "WriteStatementEntryRange c sf st (p + 1) closing ?o")
                (simp_all add: WriteStatementOperator_func [OF rd func closing])
          qed
        next
          case dvar
          show ?thesis
          proof (cases "FindStatementClosingParenthesis c st p")
            case (Inl err)
            with rd dvar show ?thesis by (simp add: WriteStatementOperator_no_closing)
          next
            case closing: (Inr closing)
            let ?o = "out @ operator_lead c sp op @ static_dvar_keyword c op @ ''(''"
            let ?arg = "\<lambda>o3. if size_t_cast (int closing - int p + 1) \<ge> 1
                           then WriteStatementOperator_staticDvar st p o3
                           else Inr o3"
            have arg: "?arg (pre @ ?o) = after_text pre (?arg ?o)"
              using WriteStatementOperator_staticDvar_append [of st p pre ?o] by simp
            show ?thesis
              using arg
              by (cases "?arg ?o")
                (simp_all add: WriteStatementOperator_dvar [OF rd dvar closing] cong: if_cong)
          qed
        qed
      qed
    qed
  qed
next
  case (2 c sf st e p sp out)
  show ?case
  proof
    fix pre
    show "WriteStatementEntryRange_loop c sf st e p sp (pre @ out) =
       after_text pre (WriteStatementEntryRange_loop c sf st e p sp out)"
    proof (cases "p < e")
      case False
      then show ?thesis by (simp add: WriteStatementEntryRange_loop_unfold)
    next
      case True
      show ?thesis
      proof (cases "array_read (entries st) p")
        case (Inl err)
        with True show ?thesis by (simp add: WriteStatementEntryRange_loop_unfold)
      next
        case (Inr b)
        show ?thesis
        proof (cases b)
          case (EET_OPERATOR op)
          with Inr have rd: "array_read (entries st) p = Inr (EET_OPERATOR op)" by simp
          from "2.IH"(1) [OF True Inr EET_OPERATOR]
          have S: "WriteStatementOperator c sf st p sp (pre @ out) =
               after_text_cursor pre (WriteStatementOperator c sf st p sp out)" by blast
          show ?thesis
          proof (cases "WriteStatementOperator c sf st p sp out")
            case (Inl err)
            with S show ?thesis
              by (simp add: WriteStatementEntryRange_loop_unfold(3) [OF True rd])
          next
            case res: (Inr res)
            obtain p' sp' out' where res': "res = (p', sp', out')" by (cases res) auto
            from "2.IH"(2) [OF True Inr EET_OPERATOR res [unfolded res'] refl refl]
            have "WriteStatementEntryRange_loop c sf st e p' sp' (pre @ out') =
               after_text pre (WriteStatementEntryRange_loop c sf st e p' sp' out')" by blast
            with S res res' show ?thesis
              by (simp add: WriteStatementEntryRange_loop_unfold(3) [OF True rd])
          qed
        next
          case (EET_OPERAND x)
          with Inr have rd: "array_read (entries st) p = Inr (EET_OPERAND x)" by simp
          note S = WriteStatementOperand_append [of sf st p sp pre out]
          show ?thesis
          proof (cases "WriteStatementOperand sf st p sp out")
            case (Inl err)
            with S show ?thesis
              by (simp add: WriteStatementEntryRange_loop_unfold(4) [OF True rd])
          next
            case res: (Inr res)
            obtain p' sp' out' where res': "res = (p', sp', out')" by (cases res) auto
            from "2.IH"(3) [OF True Inr EET_OPERAND res [unfolded res'] refl refl]
            have "WriteStatementEntryRange_loop c sf st e p' sp' (pre @ out') =
               after_text pre (WriteStatementEntryRange_loop c sf st e p' sp' out')" by blast
            with S res res' show ?thesis
              by (simp add: WriteStatementEntryRange_loop_unfold(4) [OF True rd])
          qed
        qed
      qed
    qed
  qed
next
  case (3 c sf st s e out)
  show ?case
  proof
    fix pre
    show "WriteStatementEntryRange c sf st s e (pre @ out) =
       after_text pre (WriteStatementEntryRange c sf st s e out)"
      using "3.IH"
      by (simp add: WriteStatementEntryRange.simps [of c sf st s e])
  qed
qed

lemma array_read_in_range:
  "nat (sint (numEntries st)) \<le> length (entries st) \<Longrightarrow> p < nat (sint (numEntries st)) \<Longrightarrow>
   array_read (entries st) p = Inr (entries st ! p)"
  by (simp add: array_read_def)

lemma WriteStatementEntryRange_text:
  "WriteStatementEntryRange c sf st s e out = after_text out (WriteStatementEntryRange c sf st s e [])"
proof -
  have "WriteStatementEntryRange c sf st s e (out @ []) =
      after_text out (WriteStatementEntryRange c sf st s e [])"
    using WriteStatement_append(3) by blast
  then show ?thesis unfolding append_Nil2 .
qed

lemma WriteStatementEntryRange_loop_text:
  "WriteStatementEntryRange_loop c sf st e p sp out =
     after_text out (WriteStatementEntryRange_loop c sf st e p sp [])"
proof -
  have "WriteStatementEntryRange_loop c sf st e p sp (out @ []) =
      after_text out (WriteStatementEntryRange_loop c sf st e p sp [])"
    using WriteStatement_append(2) by blast
  then show ?thesis unfolding append_Nil2 .
qed

section \<open>Virtual functions (C2)\<close>

text \<open>
  C2, as amended. Let the operator at the cursor have an opcode from \<open>OP_COUNT\<close> on
  that is not one of the static dvar accessors (those have a branch of their own, which
  comes first), in an enumeration whose left parenthesis is a named operator. Then
  \<open>WriteStatementOperator\<close> writes the space that is owed, the operator's token from the
  opcode-name table (nothing if the opcode lies outside the table), an opening
  parenthesis that no entry stands for, the text of the entries up to the closing
  position found by \<open>FindStatementClosingParenthesis\<close>, and the closing parenthesis;
  the cursor moves behind the closing position. The witness is the example
  \<open>min(1, 2)\<close>, whose comma is an entry of its own.
\<close>

theorem WriteStatementOperator_virtual_function:
  assumes "nat (sint (numEntries statement)) \<le> length (entries statement)"
    and "currentPos < nat (sint (numEntries statement))"
    and "entries statement ! currentPos = EET_OPERATOR op"
    and "OP_COUNT c \<le> op" and "OP_LEFTPAREN c < OP_COUNT c"
    and "\<not> (EXP_FUNC_STATIC_DVAR_INT c \<le> op \<and> op \<le> EXP_FUNC_STATIC_DVAR_STRING c)"
  shows "\<exists>closingParenPos.
           FindStatementClosingParenthesis c statement currentPos = Inr closingParenPos \<and>
           currentPos < closingParenPos \<and>
           closingParenPos \<le> nat (sint (numEntries statement)) \<and>
           WriteStatementOperator c show_float statement currentPos spaceNext out =
             (case WriteStatementEntryRange c show_float statement (currentPos + 1)
                     closingParenPos [] of
                Inl e \<Rightarrow> Inl e
              | Inr inner \<Rightarrow>
                  Inr (closingParenPos + 1, op \<noteq> OP_NEG c,
                       out @ operator_lead c spaceNext op @ operator_name op
                         @ ''('' @ inner @ '')''))"
proof -
  from FindStatementClosingParenthesis_total [OF assms(1,2), of c]
  obtain r where r: "FindStatementClosingParenthesis c statement currentPos = Inr r"
    "currentPos < r" "r \<le> nat (sint (numEntries statement))" by blast
  from assms(1,2,3) have rd: "array_read (entries statement) currentPos = Inr (EET_OPERATOR op)"
    by (simp add: array_read_in_range)
  from assms(4,5) have np: "op \<noteq> OP_LEFTPAREN c" by simp
  let ?o = "out @ operator_lead c spaceNext op @ operator_name op @ ''(''"
  note T = WriteStatementEntryRange_text [of c show_float statement "currentPos + 1" r ?o]
  have "WriteStatementOperator c show_float statement currentPos spaceNext out =
      (case WriteStatementEntryRange c show_float statement (currentPos + 1) r [] of
         Inl e \<Rightarrow> Inl e
       | Inr inner \<Rightarrow>
           Inr (r + 1, op \<noteq> OP_NEG c,
                out @ operator_lead c spaceNext op @ operator_name op @ ''('' @ inner @ '')''))"
    unfolding WriteStatementOperator_func [OF rd np assms(6,4) r(1)] T
    by (cases "WriteStatementEntryRange c show_float statement (currentPos + 1) r []") simp_all
  with r show ?thesis by blast
qed

lemma ex_func_closing:
  "FindStatementClosingParenthesis IW4_operationEnum
     \<lparr>numEntries = 5,
      entries = [EET_OPERATOR 32, EET_OPERAND (VAL_INT 1), EET_OPERATOR 17,
                 EET_OPERAND (VAL_INT 2), EET_OPERATOR 1],
      supportingData = None\<rparr> 0 = Inr 4"
  by code_simp

lemma ex_func_inner:
  "WriteStatementEntryRange IW4_operationEnum no_float
     \<lparr>numEntries = 5,
      entries = [EET_OPERATOR 32, EET_OPERAND (VAL_INT 1), EET_OPERATOR 17,
                 EET_OPERAND (VAL_INT 2), EET_OPERATOR 1],
      supportingData = None\<rparr> (0 + 1) 4 [] = Inr ''1, 2''"
  by code_simp

lemma operator_name_min: "operator_name 32 = ''min''"
  by code_simp

theorem WriteStatementOperator_virtual_function_witness:
  "WriteStatementOperator IW4_operationEnum no_float
     \<lparr>numEntries = 5,
      entries = [EET_OPERATOR 32, EET_OPERAND (VAL_INT 1), EET_OPERATOR 17,
                 EET_OPERAND (VAL_INT 2), EET_OPERATOR 1],
      supportingData = None\<rparr> 0 False [] = Inr (5, True, ''min(1, 2)'')"
proof -
  let ?c = IW4_operationEnum
  let ?es = "[EET_OPERATOR 32, EET_OPERAND (VAL_INT 1), EET_OPERATOR 17,
                 EET_OPERAND (VAL_INT 2), EET_OPERATOR 1]"
  let ?s = "\<lparr>numEntries = 5, entries = ?es, supportingData = None\<rparr>"
  have h: "nat (sint (numEntries ?s)) \<le> length (entries ?s)" "0 < nat (sint (numEntries ?s))"
    "entries ?s ! 0 = EET_OPERATOR 32" "OP_COUNT ?c \<le> 32" "OP_LEFTPAREN ?c < OP_COUNT ?c"
    "\<not> (EXP_FUNC_STATIC_DVAR_INT ?c \<le> 32 \<and> 32 \<le> EXP_FUNC_STATIC_DVAR_STRING ?c)"
    by (simp_all add: IW4_operationEnum_def)
  from WriteStatementOperator_virtual_function [OF h, of no_float False "[]"]
  obtain r where r: "FindStatementClosingParenthesis ?c ?s 0 = Inr r"
    and w: "WriteStatementOperator ?c no_float ?s 0 False [] =
             (case WriteStatementEntryRange ?c no_float ?s (0 + 1) r [] of
                Inl e \<Rightarrow> Inl e
              | Inr inner \<Rightarrow>
                  Inr (r + 1, 32 \<noteq> OP_NEG ?c,
                       [] @ operator_lead ?c False 32 @ operator_name 32
                         @ ''('' @ inner @ '')''))"
    by blast
  from r have "r = 4" by (simp add: ex_func_closing)
  from w have "WriteStatementOperator ?c no_float ?s 0 False [] =
      Inr (4 + 1, 32 \<noteq> OP_NEG ?c,
           [] @ operator_lead ?c False 32 @ operator_name 32 @ ''('' @ ''1, 2'' @ '')'')"
    unfolding \<open>r = 4\<close> ex_func_inner by (simp only: sum.case)
  then show ?thesis
    by (simp add: operator_name_min operator_lead_def IW4_operationEnum_def)
qed

text \<open>
  The example of C2 as the claim words it, an operator followed by two operand entries
  and a right parenthesis, is written with a space between the operands and no comma;
  and a static dvar accessor, whose opcode is not below \<open>OP_COUNT\<close>, gets neither the
  table's token nor a recursive rendering of its arguments.
\<close>

theorem virtual_function_example_counterexample:
  "WriteStatementEntryRange IW4_operationEnum no_float
     \<lparr>numEntries = 4,
      entries = [EET_OPERATOR 32, EET_OPERAND (VAL_INT 1), EET_OPERAND (VAL_INT 2),
                 EET_OPERATOR 1],
      supportingData = None\<rparr> 0 4 [] = Inr ''min(1 2)''
   \<and> OP_COUNT IW4_operationEnum \<le> 23
   \<and> WriteStatementEntryRange IW4_operationEnum no_float
     \<lparr>numEntries = 3,
      entries = [EET_OPERATOR 23, EET_OPERAND (VAL_INT 0), EET_OPERATOR 1],
      supportingData = None\<rparr> 0 3 [] = Inr ''dvarint(#INVALID_DVAR_INDEX)''"
  by code_simp

section \<open>The boolean guard and the terminator (C3)\<close>

lemma first_paren_body:
  assumes wf: "nat (sint (numEntries st)) \<le> length (entries st)"
    and first: "first_entry_is_left_parenthesis c st"
    and body: "WriteStatementEntryRange c sf st 0 (nat (sint (numEntries st))) [] = Inr body"
  shows "\<exists>rest. body = ''('' @ rest"
proof -
  let ?n = "nat (sint (numEntries st))"
  from first have pos: "0 < ?n" by (simp add: first_entry_is_left_parenthesis_def)
  from first obtain es where es: "entries st = EET_OPERATOR (OP_LEFTPAREN c) # es"
    by (auto simp: first_entry_is_left_parenthesis_def split: list.splits expressionEntry.splits)
  then have rd: "array_read (entries st) 0 = Inr (EET_OPERATOR (OP_LEFTPAREN c))"
    by (simp add: array_read_def)
  from body have loop: "WriteStatementEntryRange_loop c sf st ?n 0 False [] = Inr body"
    by (simp add: WriteStatementEntryRange.simps [of c sf st 0 ?n] split: if_splits)
  from FindStatementClosingParenthesis_total [OF wf pos, of c]
  obtain r where r: "FindStatementClosingParenthesis c st 0 = Inr r" by blast
  note op = WriteStatementOperator_paren [OF rd refl r, of sf False "[]"]
  note T = WriteStatementEntryRange_text [of c sf st "0 + 1" r "[] @ operator_lead c False (OP_LEFTPAREN c) @ ''(''"]
  from loop have "(case WriteStatementOperator c sf st 0 False [] of
          Inl err \<Rightarrow> Inl err
        | Inr (p', sp', out') \<Rightarrow> WriteStatementEntryRange_loop c sf st ?n p' sp' out') = Inr body"
    by (simp only: WriteStatementEntryRange_loop_unfold(3) [OF pos rd])
  then obtain inner where inner: "WriteStatementEntryRange c sf st (0 + 1) r [] = Inr inner"
    and rest: "WriteStatementEntryRange_loop c sf st ?n (r + 1) True (''('' @ inner @ '')'') = Inr body"
    unfolding op T
    by (cases "WriteStatementEntryRange c sf st (0 + 1) r []") (simp_all add: operator_lead_def)
  from rest WriteStatementEntryRange_loop_text [of c sf st ?n "r + 1" True "''('' @ inner @ '')''"]
  show ?thesis
    by (cases "WriteStatementEntryRange_loop c sf st ?n (r + 1) True []") auto
qed

text \<open>
  C3. For a statement whose entry count is not negative and whose array holds that many
  entries, \<open>WriteStatementProperty\<close> writes the indentation and the padded key, then in
  boolean-guard mode the keyword \<open>when\<close>, followed by a space unless the first entry is
  an explicit left parenthesis, then the text of the entries, then \<open>;\<close> and a newline
  in either mode. When the first entry is an explicit left parenthesis, the text of the
  entries begins with \<open>(\<close>, so \<open>when\<close> is immediately followed by it. Where writing
  the entries fails, the failure is the result.
\<close>

theorem WriteStatementProperty_when_prefix:
  assumes "0 \<le> sint (numEntries statement)"
    and "nat (sint (numEntries statement)) \<le> length (entries statement)"
  shows "WriteStatementProperty Indent c show_float propertyKey (Some statement)
           isBooleanStatement out =
           (case WriteStatementEntryRange c show_float statement 0
                   (nat (sint (numEntries statement))) [] of
              Inl e \<Rightarrow> Inl e
            | Inr body \<Rightarrow>
                Inr (WriteKey propertyKey (Indent out)
                     @ (if isBooleanStatement
                        then ''when'' @ (if first_entry_is_left_parenthesis c statement
                                         then [] else '' '')
                        else [])
                     @ body @ '';'' @ [CHR 0x0A]))
         \<and> (first_entry_is_left_parenthesis c statement \<longrightarrow>
              (\<forall>body. WriteStatementEntryRange c show_float statement 0
                         (nat (sint (numEntries statement))) [] = Inr body
                 \<longrightarrow> (\<exists>rest. body = ''('' @ rest)))"
proof
  define n where "n = nat (sint (numEntries statement))"
  let ?k = "WriteKey propertyKey (Indent out)"
  let ?pre = "?k @ (if isBooleanStatement
                    then ''when'' @ (if first_entry_is_left_parenthesis c statement
                                     then [] else '' '')
                    else [])"
  let ?G = "if isBooleanStatement then
              (if n < 1 then Inr ((?k @ ''when'') @ '' '')
               else
                 (case array_read (entries statement) 0 of
                    Inl e \<Rightarrow> Inl e
                  | Inr expEntry \<Rightarrow>
                      (case expEntry of
                         EET_OPERAND _ \<Rightarrow> Inr ((?k @ ''when'') @ '' '')
                       | EET_OPERATOR op \<Rightarrow>
                           if op \<noteq> OP_LEFTPAREN c then Inr ((?k @ ''when'') @ '' '')
                           else Inr (?k @ ''when''))))
            else Inr ?k"
  have cast: "size_t_cast (sint (numEntries statement)) = n"
    using size_t_cast_sint [OF assms(1)] by (simp add: n_def)
  from assms(1) have nonneg: "\<not> sint (numEntries statement) < 0" by simp
  from assms(1) have n1: "(1 \<le> sint (numEntries statement)) = (\<not> n < 1)"
    by (auto simp: n_def)
  from assms(2) have len: "n \<le> length (entries statement)" by (simp add: n_def)
  have main: "WriteStatementProperty Indent c show_float propertyKey (Some statement)
           isBooleanStatement out =
      (case ?G of
         Inl e \<Rightarrow> Inl e
       | Inr out3 \<Rightarrow>
           (case WriteStatementEntryRange c show_float statement 0 n out3 of
              Inl e \<Rightarrow> Inl e
            | Inr out4 \<Rightarrow> Inr (out4 @ '';'' @ [CHR 0x0A])))"
    unfolding WriteStatementProperty_def Let_def
    by (simp only: nonneg if_False option.case cast
        cong del: sum.case_cong_weak if_weak_cong)
  have G: "?G = Inr ?pre"
  proof (cases "n < 1")
    case True
    then show ?thesis by (simp add: first_entry_is_left_parenthesis_def n1)
  next
    case False
    with len obtain e es where es: "entries statement = e # es"
      by (cases "entries statement") auto
    with False show ?thesis
      by (cases e) (simp_all add: first_entry_is_left_parenthesis_def n1 array_read_def)
  qed
  note R = WriteStatementEntryRange_text [of c show_float statement 0 n ?pre]
  show "WriteStatementProperty Indent c show_float propertyKey (Some statement)
           isBooleanStatement out =
           (case WriteStatementEntryRange c show_float statement 0
                   (nat (sint (numEntries statement))) [] of
              Inl e \<Rightarrow> Inl e
            | Inr body \<Rightarrow>
                Inr (WriteKey propertyKey (Indent out)
                     @ (if isBooleanStatement
                        then ''when'' @ (if first_entry_is_left_parenthesis c statement
                                         then [] else '' '')
                        else [])
                     @ body @ '';'' @ [CHR 0x0A]))"
    unfolding main G n_def [symmetric] sum.case R
    by (cases "WriteStatementEntryRange c show_float statement 0 n []") simp_all
next
  show "first_entry_is_left_parenthesis c statement \<longrightarrow>
              (\<forall>body. WriteStatementEntryRange c show_float statement 0
                         (nat (sint (numEntries statement))) [] = Inr body
                 \<longrightarrow> (\<exists>rest. body = ''('' @ rest))"
    using first_paren_body [OF assms(2)] by blast
qed

lemma ex_guard_body:
  "WriteStatementEntryRange IW4_operationEnum no_float
     \<lparr>numEntries = 3,
      entries = [EET_OPERATOR 16, EET_OPERAND (VAL_INT 1), EET_OPERATOR 1],
      supportingData = None\<rparr> 0 (nat (sint (3 :: 32 word))) [] = Inr ''(1)''"
  by code_simp

theorem WriteStatementProperty_when_prefix_witness:
  "WriteStatementProperty (\<lambda>s. s @ ''    '') IW4_operationEnum no_float ''visible''
     (Some \<lparr>numEntries = 3,
            entries = [EET_OPERATOR 16, EET_OPERAND (VAL_INT 1), EET_OPERATOR 1],
            supportingData = None\<rparr>) True []
   = Inr (''    visible'' @ replicate 21 (CHR '' '') @ ''when(1);'' @ [CHR 0x0A])"
proof -
  let ?s = "\<lparr>numEntries = 3,
            entries = [EET_OPERATOR 16, EET_OPERAND (VAL_INT 1), EET_OPERATOR 1],
            supportingData = None\<rparr>"
  have h: "0 \<le> sint (numEntries ?s)" "nat (sint (numEntries ?s)) \<le> length (entries ?s)"
    by simp_all
  have f: "first_entry_is_left_parenthesis IW4_operationEnum ?s"
    by (simp add: first_entry_is_left_parenthesis_def IW4_operationEnum_def)
  note th = WriteStatementProperty_when_prefix [OF h, of "\<lambda>s. s @ ''    ''" IW4_operationEnum
      no_float "''visible''" True "[]", THEN conjunct1]
  show ?thesis
    unfolding th
    by (simp add: ex_guard_body [simplified] f WriteKey_def MENU_KEY_SPACING_def)
qed

section \<open>A missing statement is no property line (C10)\<close>

text \<open>
  C10. When the statement pointer is null or the entry count is negative,
  \<open>WriteStatementProperty\<close> returns the stream as it was: no indentation, no key, no
  \<open>when\<close> and no terminator.
\<close>

theorem WriteStatementProperty_omitted:
  "WriteStatementProperty Indent c show_float propertyKey None isBooleanStatement out = Inr out
   \<and> (sint (numEntries statement) < 0 \<longrightarrow>
        WriteStatementProperty Indent c show_float propertyKey (Some statement)
          isBooleanStatement out = Inr out)"
  by (simp add: WriteStatementProperty_def)

theorem WriteStatementProperty_omitted_witness:
  "sint (numEntries \<lparr>numEntries = - 1, entries = [], supportingData = None\<rparr>) < 0
   \<and> WriteStatementProperty (\<lambda>s. s @ ''    '') IW4_operationEnum no_float ''visible''
       (Some \<lparr>numEntries = - 1, entries = [], supportingData = None\<rparr>) True ''{'' = Inr ''{''"
proof -
  have neg: "sint (numEntries \<lparr>numEntries = - 1, entries = [], supportingData = None\<rparr>) < 0"
    by simp
  with WriteStatementProperty_omitted [of "\<lambda>s. s @ ''    ''" IW4_operationEnum no_float
      "''visible''" True "''{''" "\<lparr>numEntries = - 1, entries = [], supportingData = None\<rparr>"]
  show ?thesis by blast
qed

section \<open>Function operands (C5)\<close>

lemma WriteStatementOperand_search_first:
  assumes len: "nat count \<le> length fs"
  shows "0 \<le> i \<Longrightarrow>
    \<exists>r. WriteStatementOperand_search fs count h i = Inr r \<and>
      (if \<exists>j. i \<le> j \<and> j < count \<and> fs ! nat j = h
       then i \<le> r \<and> r < count \<and> fs ! nat r = h \<and> (\<forall>j. i \<le> j \<and> j < r \<longrightarrow> fs ! nat j \<noteq> h)
       else r = - 1)"
proof (induction "nat (count - i)" arbitrary: i)
  case 0
  then have "\<not> i < count" by simp
  then show ?case
    by (auto simp: WriteStatementOperand_search.simps [of fs count h i])
next
  case (Suc m)
  then have lt: "i < count" by simp
  with len Suc.prems have rd: "array_read fs (nat i) = Inr (fs ! nat i)"
    by (simp add: array_read_def)
  show ?case
  proof (cases "fs ! nat i = h")
    case True
    with lt rd have "WriteStatementOperand_search fs count h i = Inr i"
      by (simp add: WriteStatementOperand_search.simps [of fs count h i])
    with True lt show ?thesis by auto
  next
    case False
    with lt rd have step: "WriteStatementOperand_search fs count h i =
        WriteStatementOperand_search fs count h (i + 1)"
      by (simp add: WriteStatementOperand_search.simps [of fs count h i])
    from Suc.hyps(2) have "m = nat (count - (i + 1))" by simp
    from Suc.hyps(1) [OF this] Suc.prems
    obtain r where r: "WriteStatementOperand_search fs count h (i + 1) = Inr r"
      "if \<exists>j. i + 1 \<le> j \<and> j < count \<and> fs ! nat j = h
       then i + 1 \<le> r \<and> r < count \<and> fs ! nat r = h \<and> (\<forall>j. i + 1 \<le> j \<and> j < r \<longrightarrow> fs ! nat j \<noteq> h)
       else r = - 1"
      by auto
    have ex: "(\<exists>j. i \<le> j \<and> j < count \<and> fs ! nat j = h) = (\<exists>j. i + 1 \<le> j \<and> j < count \<and> fs ! nat j = h)"
    proof
      assume "\<exists>j. i \<le> j \<and> j < count \<and> fs ! nat j = h"
      then obtain j where j: "i \<le> j" "j < count" "fs ! nat j = h" by blast
      with False have "j \<noteq> i" by auto
      with j show "\<exists>j. i + 1 \<le> j \<and> j < count \<and> fs ! nat j = h" by (intro exI [of _ j]) simp
    next
      assume "\<exists>j. i + 1 \<le> j \<and> j < count \<and> fs ! nat j = h"
      then obtain j where j: "i + 1 \<le> j" "j < count" "fs ! nat j = h" by blast
      then show "\<exists>j. i \<le> j \<and> j < count \<and> fs ! nat j = h" by (intro exI [of _ j]) simp
    qed
    show ?thesis
    proof (cases "\<exists>j. i + 1 \<le> j \<and> j < count \<and> fs ! nat j = h")
      case True
      with r(2) have r': "i + 1 \<le> r" "r < count" "fs ! nat r = h"
        "\<forall>j. i + 1 \<le> j \<and> j < r \<longrightarrow> fs ! nat j \<noteq> h" by simp_all
      have "\<forall>j. i \<le> j \<and> j < r \<longrightarrow> fs ! nat j \<noteq> h"
      proof (intro allI impI)
        fix j assume j: "i \<le> j \<and> j < r"
        show "fs ! nat j \<noteq> h"
        proof (cases "j = i")
          case True with False show ?thesis by simp
        next
          case False with j r'(4) show ?thesis by simp
        qed
      qed
      moreover from True ex have "\<exists>j. i \<le> j \<and> j < count \<and> fs ! nat j = h" by simp
      moreover from step r(1) have "WriteStatementOperand_search fs count h i = Inr r" by simp
      moreover from r'(1) have "i \<le> r" by simp
      ultimately show ?thesis using r'(2,3) by (simp only: if_P) blast
    next
      case False
      with ex have nex: "\<not> (\<exists>j. i \<le> j \<and> j < count \<and> fs ! nat j = h)" by simp
      from False r(2) have "r = - 1" by simp
      with step r(1) have "WriteStatementOperand_search fs count h i = Inr (- 1)" by simp
      then show ?thesis unfolding if_not_P [OF nex] by blast
    qed
  qed
qed

lemma function_token:
  assumes len: "nat count \<le> length fs"
  shows "\<exists>r. WriteStatementOperand_search fs count h 0 = Inr r \<and>
     (if h \<in> set (take (nat count) fs)
      then 0 \<le> r \<and> nat r < length (take (nat count) fs) \<and> take (nat count) fs ! nat r = h \<and>
           (\<forall>j < nat r. take (nat count) fs ! j \<noteq> h)
      else r = - 1)"
proof -
  let ?t = "take (nat count) fs"
  from len have lt: "length ?t = nat count" by simp
  have mem: "(h \<in> set ?t) = (\<exists>j. 0 \<le> j \<and> j < count \<and> fs ! nat j = h)"
  proof
    assume "h \<in> set ?t"
    then obtain k where k: "k < length ?t" "?t ! k = h" by (auto simp: in_set_conv_nth)
    with lt have "0 \<le> int k \<and> int k < count \<and> fs ! nat (int k) = h" by auto
    then show "\<exists>j. 0 \<le> j \<and> j < count \<and> fs ! nat j = h" ..
  next
    assume "\<exists>j. 0 \<le> j \<and> j < count \<and> fs ! nat j = h"
    then obtain j where j: "0 \<le> j" "j < count" "fs ! nat j = h" by blast
    with lt have "nat j < length ?t" "?t ! nat j = h" by auto
    then show "h \<in> set ?t" by (auto simp: in_set_conv_nth)
  qed
  from WriteStatementOperand_search_first [OF len, of 0 h]
  obtain r where r: "WriteStatementOperand_search fs count h 0 = Inr r"
    "if \<exists>j. 0 \<le> j \<and> j < count \<and> fs ! nat j = h
     then 0 \<le> r \<and> r < count \<and> fs ! nat r = h \<and> (\<forall>j. 0 \<le> j \<and> j < r \<longrightarrow> fs ! nat j \<noteq> h)
     else r = - 1"
    by auto
  show ?thesis
  proof (cases "h \<in> set ?t")
    case True
    with mem r(2) have r': "0 \<le> r" "r < count" "fs ! nat r = h"
      "\<forall>j. 0 \<le> j \<and> j < r \<longrightarrow> fs ! nat j \<noteq> h" by simp_all
    have "\<forall>j < nat r. ?t ! j \<noteq> h"
    proof (intro allI impI)
      fix j assume "j < nat r"
      with r'(1,2) have "0 \<le> int j \<and> int j < r" "j < nat count" by auto
      with r'(4) have "fs ! nat (int j) \<noteq> h" by blast
      with \<open>j < nat count\<close> show "?t ! j \<noteq> h" by simp
    qed
    moreover from r'(1,2) lt have "nat r < length ?t" by simp
    moreover from r'(1,2,3) have "?t ! nat r = h" by simp
    ultimately show ?thesis using r(1) r'(1) True by (simp only: if_P) blast
  next
    case False
    with mem r(2) have "r = - 1" by simp
    with r(1) show ?thesis unfolding if_not_P [OF False] by blast
  qed
qed

text \<open>
  C5. For an operand entry that holds a function handle, with a function array of at
  least \<open>totalFunctions\<close> handles, \<open>WriteStatementOperand\<close> writes the space that is owed
  and then \<open>FUNC_\<close> followed by the first position of the handle in the supporting
  function table; when the handle is not in the table, or there is no table, it writes
  \<open>INVALID_FUNC\<close>. It does not fail, and the cursor moves to the next entry.
\<close>

theorem WriteStatementOperand_function:
  assumes "currentPos < length (entries statement)"
    and "entries statement ! currentPos = EET_OPERAND (VAL_FUNCTION handle)"
    and "\<forall>sd fs. supportingData statement = Some sd \<longrightarrow>
           functions_array (uifunctions sd) = Some fs \<longrightarrow>
           nat (totalFunctions (uifunctions sd)) \<le> length fs"
  shows "\<exists>token.
           WriteStatementOperand show_float statement currentPos spaceNext out =
             Inr (currentPos + 1, True, out @ (if spaceNext then '' '' else []) @ token) \<and>
           (case function_table statement of
              None \<Rightarrow> token = ''INVALID_FUNC''
            | Some fs \<Rightarrow>
                if handle \<in> set fs
                then \<exists>i < length fs. fs ! i = handle \<and> (\<forall>j < i. fs ! j \<noteq> handle) \<and>
                       token = ''FUNC_'' @ show_int (int i)
                else token = ''INVALID_FUNC'')"
proof -
  from assms(1,2) have rd: "array_read (entries statement) currentPos =
      Inr (EET_OPERAND (VAL_FUNCTION handle))"
    by (simp add: array_read_def)
  show ?thesis
  proof (cases "function_table statement")
    case None
    then have "WriteStatementOperand show_float statement currentPos spaceNext out =
        Inr (currentPos + 1, True, out @ (if spaceNext then '' '' else []) @ ''INVALID_FUNC'')"
      by (auto simp: WriteStatementOperand_def rd function_table_def Let_def split: option.splits)
    with None show ?thesis by simp
  next
    case (Some t)
    then obtain sd fs where sd: "supportingData statement = Some sd"
      and fs: "functions_array (uifunctions sd) = Some fs"
      and t: "t = take (nat (totalFunctions (uifunctions sd))) fs"
      by (auto simp: function_table_def split: option.splits)
    from assms(3) sd fs have len: "nat (totalFunctions (uifunctions sd)) \<le> length fs" by blast
    from function_token [OF len, of handle] t
    obtain r where r: "WriteStatementOperand_search fs (totalFunctions (uifunctions sd)) handle 0 = Inr r"
      "if handle \<in> set t
       then 0 \<le> r \<and> nat r < length t \<and> t ! nat r = handle \<and> (\<forall>j < nat r. t ! j \<noteq> handle)
       else r = - 1"
      by auto
    let ?token = "if r \<ge> 0 then ''FUNC_'' @ show_int r else ''INVALID_FUNC''"
    have w: "WriteStatementOperand show_float statement currentPos spaceNext out =
        Inr (currentPos + 1, True, out @ (if spaceNext then '' '' else []) @ ?token)"
      by (simp add: WriteStatementOperand_def rd sd fs r(1) Let_def)
    show ?thesis
    proof (cases "handle \<in> set t")
      case True
      with r(2) have r': "0 \<le> r" "nat r < length t" "t ! nat r = handle"
        "\<forall>j < nat r. t ! j \<noteq> handle" by simp_all
      then have "\<exists>i < length t. t ! i = handle \<and> (\<forall>j < i. t ! j \<noteq> handle) \<and>
          ?token = ''FUNC_'' @ show_int (int i)"
        by (intro exI [of _ "nat r"]) simp
      with w Some True show ?thesis by (simp only: option.case if_P) blast
    next
      case False
      with r(2) have "r = - 1" by simp
      with w Some False show ?thesis by simp
    qed
  qed
qed

theorem WriteStatementOperand_function_witness:
  "WriteStatementOperand no_float
     \<lparr>numEntries = 1, entries = [EET_OPERAND (VAL_FUNCTION 20)],
      supportingData = Some
        \<lparr>uifunctions = \<lparr>totalFunctions = 3, functions_array = Some [10, 20, 20]\<rparr>,
         staticDvarList = \<lparr>numStaticDvars = 0, staticDvars = None\<rparr>\<rparr>\<rparr> 0 True ''1 +''
     = Inr (1, True, ''1 + FUNC_1'')"
proof -
  let ?sd = "\<lparr>uifunctions = \<lparr>totalFunctions = 3, functions_array = Some [10, 20, 20]\<rparr>,
         staticDvarList = \<lparr>numStaticDvars = 0, staticDvars = None\<rparr>\<rparr>"
  let ?s = "\<lparr>numEntries = 1, entries = [EET_OPERAND (VAL_FUNCTION 20)],
      supportingData = Some ?sd\<rparr>"
  have h: "0 < length (entries ?s)" "entries ?s ! 0 = EET_OPERAND (VAL_FUNCTION 20)"
    "\<forall>sd fs. supportingData ?s = Some sd \<longrightarrow>
           functions_array (uifunctions sd) = Some fs \<longrightarrow>
           nat (totalFunctions (uifunctions sd)) \<le> length fs"
    by auto
  have ft: "function_table ?s = Some [10, 20, 20]"
    by (simp add: function_table_def)
  from WriteStatementOperand_function [OF h, of no_float True "''1 +''"]
  obtain token where w: "WriteStatementOperand no_float ?s 0 True ''1 +'' =
             Inr (0 + 1, True, ''1 +'' @ (if True then '' '' else []) @ token)"
    and tk: "\<exists>i < length [10, 20, 20 :: nat]. [10, 20, 20 :: nat] ! i = 20 \<and>
        (\<forall>j < i. [10, 20, 20 :: nat] ! j \<noteq> 20) \<and> token = ''FUNC_'' @ show_int (int i)"
    unfolding ft by auto
  from tk obtain i where I: "i < length [10, 20, 20 :: nat] \<and> [10, 20, 20 :: nat] ! i = 20 \<and>
        (\<forall>j < i. [10, 20, 20 :: nat] ! j \<noteq> 20) \<and> token = ''FUNC_'' @ show_int (int i)" ..
  then have i: "i < 3" "[10, 20, 20 :: nat] ! i = 20"
    "\<forall>j < i. [10, 20, 20 :: nat] ! j \<noteq> 20" "token = ''FUNC_'' @ show_int (int i)"
    by simp_all
  from i(1) have "i = 0 \<or> i = 1 \<or> i = 2" by arith
  then have "i = 1"
  proof (elim disjE)
    assume "i = 0" with i(2) show ?thesis by simp
  next
    assume "i = 1" then show ?thesis .
  next
    assume "i = 2"
    then have "(1::nat) < i" by simp
    with i(3) have "[10, 20, 20 :: nat] ! 1 \<noteq> 20" by blast
    then show ?thesis by simp
  qed
  have "show_int 1 = ''1''" by code_simp
  with \<open>i = 1\<close> i(4) have "token = ''FUNC_1''" by simp
  with w show ?thesis by simp
qed

section \<open>The loop over a range ends (C9)\<close>

lemma WriteStatementOperator_cursor:
  assumes "WriteStatementOperator c sf st p sp out = Inr (p', sp', out')"
  shows "p < p' \<and>
     (p' = p + 1 \<or>
      (\<exists>closing. FindStatementClosingParenthesis c st p = Inr closing \<and> p < closing \<and>
                  p' = closing + 1))"
proof (cases "array_read (entries st) p")
  case (Inl err)
  with assms show ?thesis by (simp add: WriteStatementOperator_errors)
next
  case (Inr b)
  show ?thesis
  proof (cases b)
    case (EET_OPERAND x)
    with Inr assms show ?thesis by (simp add: WriteStatementOperator_errors)
  next
    case (EET_OPERATOR op)
    with Inr have rd: "array_read (entries st) p = Inr (EET_OPERATOR op)" by simp
    consider (plain) "op \<noteq> OP_LEFTPAREN c"
          "\<not> (EXP_FUNC_STATIC_DVAR_INT c \<le> op \<and> op \<le> EXP_FUNC_STATIC_DVAR_STRING c)"
          "\<not> OP_COUNT c \<le> op"
      | (scan) "op = OP_LEFTPAREN c \<or>
          (EXP_FUNC_STATIC_DVAR_INT c \<le> op \<and> op \<le> EXP_FUNC_STATIC_DVAR_STRING c) \<or>
          OP_COUNT c \<le> op"
      by blast
    then show ?thesis
    proof cases
      case plain
      from assms show ?thesis by (simp add: WriteStatementOperator_plain [OF rd plain])
    next
      case scan
      show ?thesis
      proof (cases "FindStatementClosingParenthesis c st p")
        case (Inl err)
        with assms show ?thesis by (simp add: WriteStatementOperator_no_closing [OF rd scan])
      next
        case closing: (Inr closing)
        from FindStatementClosingParenthesis_bounds [OF closing] have lt: "p < closing" by simp
        have "p' = closing + 1"
        proof (cases "op = OP_LEFTPAREN c")
          case True
          from assms show ?thesis
            unfolding WriteStatementOperator_paren [OF rd True closing]
            by (simp split: sum.splits)
        next
          case np: False
          show ?thesis
          proof (cases "EXP_FUNC_STATIC_DVAR_INT c \<le> op \<and> op \<le> EXP_FUNC_STATIC_DVAR_STRING c")
            case True
            then have d: "EXP_FUNC_STATIC_DVAR_INT c \<le> op" "op \<le> EXP_FUNC_STATIC_DVAR_STRING c"
              by simp_all
            from assms show ?thesis
              unfolding WriteStatementOperator_dvar [OF rd np d closing]
              by (simp split: sum.splits)
          next
            case False
            with scan np have cnt: "OP_COUNT c \<le> op" by blast
            from assms show ?thesis
              unfolding WriteStatementOperator_func [OF rd np False cnt closing]
              by (simp split: sum.splits)
          qed
        qed
        with lt closing show ?thesis by simp
      qed
    qed
  qed
qed

lemma WriteStatementEntryRange_body_cursor:
  assumes "WriteStatementEntryRange_body c sf st (p, sp, out) = Inr s'"
  shows "p < fst s' \<and>
     (fst s' = p + 1 \<or>
      (\<exists>op closing. array_read (entries st) p = Inr (EET_OPERATOR op) \<and>
         FindStatementClosingParenthesis c st p = Inr closing \<and> p < closing \<and>
         fst s' = closing + 1))"
proof -
  obtain p' sp' out' where s': "s' = (p', sp', out')" by (cases s') auto
  from assms obtain b where rd: "array_read (entries st) p = Inr b"
    by (auto simp: WriteStatementEntryRange_body_def split: sum.splits)
  show ?thesis
  proof (cases b)
    case (EET_OPERATOR op)
    with assms rd s' have "WriteStatementOperator c sf st p sp out = Inr (p', sp', out')"
      by (simp add: WriteStatementEntryRange_body_def)
    from WriteStatementOperator_cursor [OF this] rd EET_OPERATOR s' show ?thesis by auto
  next
    case (EET_OPERAND x)
    with assms rd s' have "WriteStatementOperand sf st p sp out = Inr (p', sp', out')"
      by (simp add: WriteStatementEntryRange_body_def)
    from WriteStatementOperand_cursor [OF this] s' show ?thesis by simp
  qed
qed

lemma WriteStatementEntryRange_loop_body:
  "WriteStatementEntryRange_loop c sf st e p sp out =
     (if p < e then
        (case WriteStatementEntryRange_body c sf st (p, sp, out) of
           Inl err \<Rightarrow> Inl err
         | Inr (p', sp', out') \<Rightarrow> WriteStatementEntryRange_loop c sf st e p' sp' out')
      else Inr out)"
  by (subst WriteStatementEntryRange_loop.simps)
    (simp add: WriteStatementEntryRange_body_def split: sum.splits expressionEntry.splits)

lemma WriteStatementEntryRange_iterations_enough:
  "e - p \<le> k \<Longrightarrow>
   WriteStatementEntryRange_iterations k c sf st e (p, sp, out) =
     Some (WriteStatementEntryRange_loop c sf st e p sp out)"
proof (induction k arbitrary: p sp out)
  case 0
  then have "\<not> p < e" by simp
  then show ?case by (simp add: WriteStatementEntryRange_loop_body [of c sf st e p])
next
  case (Suc k)
  show ?case
  proof (cases "p < e")
    case False
    then show ?thesis by (simp add: WriteStatementEntryRange_loop_body [of c sf st e p])
  next
    case True
    show ?thesis
    proof (cases "WriteStatementEntryRange_body c sf st (p, sp, out)")
      case (Inl err)
      with True show ?thesis by (simp add: WriteStatementEntryRange_loop_body [of c sf st e p])
    next
      case (Inr s')
      obtain p' sp' out' where s': "s' = (p', sp', out')" by (cases s') auto
      from WriteStatementEntryRange_body_cursor [OF Inr] s' have "p < p'" by simp
      with Suc.prems have "e - p' \<le> k" by simp
      from Suc.IH [OF this] Inr s' True show ?thesis
        by (simp add: WriteStatementEntryRange_loop_body [of c sf st e p])
    qed
  qed
qed

text \<open>
  C9. For a range with \<open>startOffset \<le> endOffset \<le> numEntries\<close>, the loop of
  \<open>WriteStatementEntryRange\<close> finishes within \<open>endOffset - startOffset\<close> passes, with the
  result of the function (which is total: its definition comes with the termination
  proof of the mutual recursion with \<open>WriteStatementOperator\<close>). Every pass that does
  not fail moves the cursor strictly forward: by one, or to one behind the closing
  position found for the operator under the cursor, which lies behind the cursor.
\<close>

theorem WriteStatementEntryRange_terminates:
  assumes "startOffset \<le> endOffset"
    and "endOffset \<le> nat (sint (numEntries statement))"
  shows "WriteStatementEntryRange_iterations (endOffset - startOffset) c show_float statement
           endOffset (startOffset, False, out)
         = Some (WriteStatementEntryRange c show_float statement startOffset endOffset out)
       \<and> (\<forall>currentPos spaceNext out' s'.
            WriteStatementEntryRange_body c show_float statement (currentPos, spaceNext, out')
              = Inr s' \<longrightarrow>
            currentPos < fst s' \<and>
            (fst s' = currentPos + 1 \<or>
             (\<exists>op closingParenPos.
                array_read (entries statement) currentPos = Inr (EET_OPERATOR op) \<and>
                FindStatementClosingParenthesis c statement currentPos = Inr closingParenPos \<and>
                currentPos < closingParenPos \<and> fst s' = closingParenPos + 1)))"
proof
  have le: "endOffset \<le> size_t_cast (sint (numEntries statement))"
  proof (cases "0 \<le> sint (numEntries statement)")
    case True
    with assms(2) show ?thesis by (simp add: size_t_cast_sint)
  next
    case False
    with assms(2) show ?thesis by simp
  qed
  with assms(1) have "WriteStatementEntryRange c show_float statement startOffset endOffset out =
      WriteStatementEntryRange_loop c show_float statement endOffset startOffset False out"
    by (simp add: WriteStatementEntryRange.simps [of c show_float statement startOffset endOffset])
  then show "WriteStatementEntryRange_iterations (endOffset - startOffset) c show_float statement
           endOffset (startOffset, False, out)
         = Some (WriteStatementEntryRange c show_float statement startOffset endOffset out)"
    by (simp add: WriteStatementEntryRange_iterations_enough)
next
  show "\<forall>currentPos spaceNext out' s'.
            WriteStatementEntryRange_body c show_float statement (currentPos, spaceNext, out')
              = Inr s' \<longrightarrow>
            currentPos < fst s' \<and>
            (fst s' = currentPos + 1 \<or>
             (\<exists>op closingParenPos.
                array_read (entries statement) currentPos = Inr (EET_OPERATOR op) \<and>
                FindStatementClosingParenthesis c statement currentPos = Inr closingParenPos \<and>
                currentPos < closingParenPos \<and> fst s' = closingParenPos + 1))"
    using WriteStatementEntryRange_body_cursor by blast
qed

lemma ex_func_range:
  "WriteStatementEntryRange IW4_operationEnum no_float
     \<lparr>numEntries = 5,
      entries = [EET_OPERATOR 32, EET_OPERAND (VAL_INT 1), EET_OPERATOR 17,
                 EET_OPERAND (VAL_INT 2), EET_OPERATOR 1],
      supportingData = None\<rparr> 0 5 [] = Inr ''min(1, 2)''"
  by code_simp

theorem WriteStatementEntryRange_terminates_witness:
  "WriteStatementEntryRange_iterations 5 IW4_operationEnum no_float
     \<lparr>numEntries = 5,
      entries = [EET_OPERATOR 32, EET_OPERAND (VAL_INT 1), EET_OPERATOR 17,
                 EET_OPERAND (VAL_INT 2), EET_OPERATOR 1],
      supportingData = None\<rparr> 5 (0, False, []) = Some (Inr ''min(1, 2)'')"
proof -
  let ?s = "\<lparr>numEntries = 5,
      entries = [EET_OPERATOR 32, EET_OPERAND (VAL_INT 1), EET_OPERATOR 17,
                 EET_OPERAND (VAL_INT 2), EET_OPERATOR 1],
      supportingData = None\<rparr>"
  have h: "(0::nat) \<le> 5" "5 \<le> nat (sint (numEntries ?s))" by simp_all
  from WriteStatementEntryRange_terminates [OF h, of IW4_operationEnum no_float "[]",
      THEN conjunct1]
  show ?thesis by (simp add: ex_func_range)
qed

section \<open>Static dvar accessors (C4)\<close>

text \<open>
  C4 fails on the code where the accessor is the last entry of the statement. The guard
  \<^verbatim>\<open>closingParenPos - currentPos + 1 >= 1\<close> in front of the read of the next entry
  always holds, so \<^verbatim>\<open>entries[currentPos + 1]\<close> is read although the array ends at
  \<open>currentPos\<close>: the statement of the single entry \<open>dvarint\<close> is not rendered with a
  sentinel, the serializer reads past the end of the entry array.
\<close>

theorem static_dvar_last_entry_reads_past_the_end:
  "WriteStatementEntryRange IW4_operationEnum no_float
     \<lparr>numEntries = 1, entries = [EET_OPERATOR 23], supportingData = None\<rparr> 0 1 []
     = Inl OutOfBounds
   \<and> WriteStatementProperty (\<lambda>s. s) IW4_operationEnum no_float ''visible''
       (Some \<lparr>numEntries = 1, entries = [EET_OPERATOR 23], supportingData = None\<rparr>) True []
     = Inl OutOfBounds"
  by code_simp

lemma WriteStatementOperator_staticDvar_text:
  assumes next_entry: "p + 1 < length (entries st)"
    and alloc: "supporting_arrays_allocated st"
  shows "WriteStatementOperator_staticDvar st p out =
     Inr (out @ static_dvar_argument st (entries st ! (p + 1)))"
proof -
  from next_entry have rd: "array_read (entries st) (Suc p) = Inr (entries st ! Suc p)"
    by (simp add: array_read_def)
  show ?thesis
  proof (cases "entries st ! Suc p")
    case (EET_OPERATOR op)
    then show ?thesis
      by (simp add: WriteStatementOperator_staticDvar_def rd static_dvar_argument_def)
  next
    case (EET_OPERAND operand)
    show ?thesis
    proof (cases operand)
      case (VAL_INT i)
      show ?thesis
      proof (cases "static_dvar_table st")
        case None
        with EET_OPERAND VAL_INT show ?thesis
          by (auto simp: WriteStatementOperator_staticDvar_def rd static_dvar_argument_def
              static_dvar_table_def split: option.splits)
      next
        case (Some t)
        then obtain sd dvars where sd: "supportingData st = Some sd"
          and dv: "staticDvars (staticDvarList sd) = Some dvars"
          and t: "t = take (nat (numStaticDvars (staticDvarList sd))) dvars"
          by (auto simp: static_dvar_table_def split: option.splits)
        from alloc sd dv have len: "nat (numStaticDvars (staticDvarList sd)) \<le> length dvars"
          by (simp add: supporting_arrays_allocated_def)
        then have lt: "length t = nat (numStaticDvars (staticDvarList sd))"
          by (simp add: t)
        show ?thesis
        proof (cases "0 \<le> i \<and> i < numStaticDvars (staticDvarList sd)")
          case True
          with len have "array_read dvars (nat i) = Inr (dvars ! nat i)" "t ! nat i = dvars ! nat i"
            "nat i < length t"
            by (auto simp: array_read_def t)
          with True EET_OPERAND VAL_INT Some sd dv show ?thesis
            by (auto simp: WriteStatementOperator_staticDvar_def rd static_dvar_argument_def
                split: option.splits)
        next
          case False
          with lt have "\<not> (0 \<le> i \<and> nat i < length t)" by auto
          with False EET_OPERAND VAL_INT Some sd dv show ?thesis
            by (auto simp: WriteStatementOperator_staticDvar_def rd static_dvar_argument_def)
        qed
      qed
    qed (simp_all add: WriteStatementOperator_staticDvar_def rd static_dvar_argument_def EET_OPERAND)
  qed
qed

lemma static_dvar_guard:
  assumes "p < closing" and "closing \<le> nat (sint (w :: 32 word))"
  shows "size_t_cast (int closing - int p + 1) \<ge> 1"
proof -
  have "sint w < 2 ^ (LENGTH(32) - 1)" by (rule sint_lt)
  with assms have "int closing - int p + 1 < 2 ^ 64" "0 < int closing - int p + 1" by simp_all
  then show ?thesis by (simp add: size_t_cast_def)
qed

text \<open>
  An accessor that is followed by an entry is rendered as C4 says: the keyword, and
  between the parentheses the name of the dvar at the index given by the following
  integer operand, \<open>#INVALID_DVAR_INDEX\<close> when the index is outside the table (or there
  is no table), and \<open>#INVALID_DVAR_OPERAND\<close> when the following entry is not an integer
  operand; the cursor moves behind the closing position.
\<close>

lemma WriteStatementOperator_static_dvar:
  assumes "nat (sint (numEntries statement)) \<le> length (entries statement)"
    and "currentPos < nat (sint (numEntries statement))"
    and "currentPos + 1 < length (entries statement)"
    and "supporting_arrays_allocated statement"
    and "entries statement ! currentPos = EET_OPERATOR op"
    and "op \<noteq> OP_LEFTPAREN c"
    and "EXP_FUNC_STATIC_DVAR_INT c \<le> op" and "op \<le> EXP_FUNC_STATIC_DVAR_STRING c"
  shows "\<exists>closingParenPos.
           FindStatementClosingParenthesis c statement currentPos = Inr closingParenPos \<and>
           currentPos < closingParenPos \<and>
           WriteStatementOperator c show_float statement currentPos spaceNext out =
             Inr (closingParenPos + 1, True,
                  out @ operator_lead c spaceNext op @ static_dvar_keyword c op @ ''(''
                    @ static_dvar_argument statement (entries statement ! (currentPos + 1))
                    @ '')'')"
proof -
  from FindStatementClosingParenthesis_total [OF assms(1,2), of c]
  obtain r where r: "FindStatementClosingParenthesis c statement currentPos = Inr r"
    "currentPos < r" "r \<le> nat (sint (numEntries statement))" by blast
  from assms(1,2,5) have rd: "array_read (entries statement) currentPos = Inr (EET_OPERATOR op)"
    by (simp add: array_read_in_range)
  note g = static_dvar_guard [OF r(2,3)]
  have "WriteStatementOperator c show_float statement currentPos spaceNext out =
             Inr (r + 1, True,
                  out @ operator_lead c spaceNext op @ static_dvar_keyword c op @ ''(''
                    @ static_dvar_argument statement (entries statement ! (currentPos + 1))
                    @ '')'')"
    unfolding WriteStatementOperator_dvar [OF rd assms(6,7,8) r(1)]
    using g by (simp add: WriteStatementOperator_staticDvar_text [OF assms(3,4)])
  with r show ?thesis by blast
qed

lemma WriteStatementOperand_total:
  assumes "p < length (entries st)" and "supporting_arrays_allocated st"
    and "entries st ! p = EET_OPERAND x"
  shows "\<exists>r. WriteStatementOperand sf st p sp out = Inr r"
proof -
  from assms(1,3) have rd: "array_read (entries st) p = Inr (EET_OPERAND x)"
    by (simp add: array_read_def)
  show ?thesis
  proof (cases x)
    case (VAL_FUNCTION h)
    show ?thesis
    proof (cases "supportingData st")
      case None
      with VAL_FUNCTION show ?thesis by (auto simp: WriteStatementOperand_def rd Let_def)
    next
      case (Some sd)
      show ?thesis
      proof (cases "functions_array (uifunctions sd)")
        case None
        with Some VAL_FUNCTION show ?thesis by (auto simp: WriteStatementOperand_def rd Let_def)
      next
        case fs: (Some fs)
        with assms(2) Some have "nat (totalFunctions (uifunctions sd)) \<le> length fs"
          by (simp add: supporting_arrays_allocated_def)
        from WriteStatementOperand_search_first [OF this, of 0 h]
        obtain r where "WriteStatementOperand_search fs (totalFunctions (uifunctions sd)) h 0 = Inr r"
          by auto
        with Some fs VAL_FUNCTION show ?thesis
          by (auto simp: WriteStatementOperand_def rd Let_def)
      qed
    qed
  qed (auto simp: WriteStatementOperand_def rd Let_def)
qed

lemma WriteStatement_total:
  fixes st :: Statement_s
  shows
  "nat (sint (numEntries st)) \<le> length (entries st) \<and> supporting_arrays_allocated st \<and>
     \<not> static_dvar_accessor_last c st \<and> p < nat (sint (numEntries st)) \<and>
     (\<exists>op. entries st ! p = EET_OPERATOR op) \<longrightarrow>
     (\<exists>r. WriteStatementOperator c sf st p sp out = Inr r)"
  "nat (sint (numEntries st)) \<le> length (entries st) \<and> supporting_arrays_allocated st \<and>
     \<not> static_dvar_accessor_last c st \<and> e \<le> nat (sint (numEntries st)) \<longrightarrow>
     (\<exists>r. WriteStatementEntryRange_loop c sf st e p sp out = Inr r)"
  "nat (sint (numEntries st)) \<le> length (entries st) \<and> supporting_arrays_allocated st \<and>
     \<not> static_dvar_accessor_last c st \<and> s \<le> e \<and> e \<le> nat (sint (numEntries st)) \<longrightarrow>
     (\<exists>r. WriteStatementEntryRange c sf st s e out = Inr r)"
proof (induction c sf st p sp out and c sf st e p sp out and c sf st s e out
    rule: WriteStatementOperator_WriteStatementEntryRange_loop_WriteStatementEntryRange.induct)
  case (1 c sf st p sp out)
  show ?case
  proof (intro impI, elim conjE)
    let ?n = "nat (sint (numEntries st))"
    assume wf: "?n \<le> length (entries st)" and alloc: "supporting_arrays_allocated st"
      and nl: "\<not> static_dvar_accessor_last c st" and p: "p < ?n"
      and isop: "\<exists>op. entries st ! p = EET_OPERATOR op"
    from wf p have rd0: "array_read (entries st) p = Inr (entries st ! p)"
      by (simp add: array_read_in_range)
    from FindStatementClosingParenthesis_total [OF wf p, of c]
    obtain closing where closing: "FindStatementClosingParenthesis c st p = Inr closing"
      "p < closing" "closing \<le> ?n" by blast
    show "\<exists>r. WriteStatementOperator c sf st p sp out = Inr r"
    proof (cases "entries st ! p")
      case (EET_OPERAND x)
      with isop show ?thesis by simp
    next
      case (EET_OPERATOR op)
      with rd0 have rd: "array_read (entries st) p = Inr (EET_OPERATOR op)" by simp
      consider (paren) "op = OP_LEFTPAREN c"
        | (dvar) "op \<noteq> OP_LEFTPAREN c"
            "EXP_FUNC_STATIC_DVAR_INT c \<le> op" "op \<le> EXP_FUNC_STATIC_DVAR_STRING c"
        | (func) "op \<noteq> OP_LEFTPAREN c"
            "\<not> (EXP_FUNC_STATIC_DVAR_INT c \<le> op \<and> op \<le> EXP_FUNC_STATIC_DVAR_STRING c)"
            "OP_COUNT c \<le> op"
        | (plain) "op \<noteq> OP_LEFTPAREN c"
            "\<not> (EXP_FUNC_STATIC_DVAR_INT c \<le> op \<and> op \<le> EXP_FUNC_STATIC_DVAR_STRING c)"
            "\<not> OP_COUNT c \<le> op"
        by blast
      then show ?thesis
      proof cases
        case plain
        show ?thesis by (auto simp: WriteStatementOperator_plain [OF rd plain])
      next
        case paren
        from "1.IH"(1) [OF rd0 EET_OPERATOR refl paren closing(1)] wf alloc nl closing(2,3)
        obtain r where "WriteStatementEntryRange c sf st (p + 1) closing
            ((if sp \<and> op \<noteq> OP_COMMA c then out @ '' '' else out) @ ''('') = Inr r"
          by auto
        then show ?thesis
          by (auto simp: WriteStatementOperator_paren [OF rd paren closing(1)] operator_lead_eq)
      next
        case func
        from "1.IH"(2) [OF rd0 EET_OPERATOR refl func(1,2) refl func(3) closing(1)]
          wf alloc nl closing(2,3)
        obtain r where "WriteStatementEntryRange c sf st (p + 1) closing
            ((if 0 \<le> op \<and> nat op < length g_expFunctionNames
              then (if sp \<and> op \<noteq> OP_COMMA c then out @ '' '' else out) @ g_expFunctionNames ! nat op
              else (if sp \<and> op \<noteq> OP_COMMA c then out @ '' '' else out)) @ ''('') = Inr r"
          by auto
        then show ?thesis
          by (auto simp: WriteStatementOperator_func [OF rd func closing(1)] operator_lead_eq
              operator_name_eq)
      next
        case dvar
        have next_entry: "p + 1 < length (entries st)"
        proof (rule ccontr)
          assume "\<not> p + 1 < length (entries st)"
          with p wf have len: "length (entries st) = ?n" "p = length (entries st) - 1"
            "entries st \<noteq> []" by auto
          then have "last (entries st) = entries st ! p" by (simp add: last_conv_nth)
          with EET_OPERATOR dvar len have "static_dvar_accessor_last c st"
            by (simp add: static_dvar_accessor_last_def)
          with nl show False by simp
        qed
        note g = static_dvar_guard [OF closing(2,3)]
        show ?thesis
          unfolding WriteStatementOperator_dvar [OF rd dvar closing(1)]
          using g by (auto simp: WriteStatementOperator_staticDvar_text [OF next_entry alloc])
      qed
    qed
  qed
next
  case (2 c sf st e p sp out)
  show ?case
  proof (intro impI, elim conjE)
    let ?n = "nat (sint (numEntries st))"
    assume wf: "?n \<le> length (entries st)" and alloc: "supporting_arrays_allocated st"
      and nl: "\<not> static_dvar_accessor_last c st" and e: "e \<le> ?n"
    show "\<exists>r. WriteStatementEntryRange_loop c sf st e p sp out = Inr r"
    proof (cases "p < e")
      case False
      then show ?thesis by (simp add: WriteStatementEntryRange_loop_unfold)
    next
      case True
      with e have p: "p < ?n" by simp
      with wf have rd0: "array_read (entries st) p = Inr (entries st ! p)"
        by (simp add: array_read_in_range)
      show ?thesis
      proof (cases "entries st ! p")
        case (EET_OPERATOR op)
        with rd0 have rd: "array_read (entries st) p = Inr (EET_OPERATOR op)" by simp
        from "2.IH"(1) [OF True rd0 EET_OPERATOR] wf alloc nl p EET_OPERATOR
        obtain res where res: "WriteStatementOperator c sf st p sp out = Inr res" by auto
        obtain p' sp' out' where res': "res = (p', sp', out')" by (cases res) auto
        from "2.IH"(2) [OF True rd0 EET_OPERATOR res [unfolded res'] refl refl] wf alloc nl e
        obtain r where "WriteStatementEntryRange_loop c sf st e p' sp' out' = Inr r" by auto
        with res res' show ?thesis
          by (simp add: WriteStatementEntryRange_loop_unfold(3) [OF True rd])
      next
        case (EET_OPERAND x)
        with rd0 have rd: "array_read (entries st) p = Inr (EET_OPERAND x)" by simp
        from p wf have "p < length (entries st)" by simp
        from WriteStatementOperand_total [OF this alloc EET_OPERAND, of sf sp out]
        obtain res where res: "WriteStatementOperand sf st p sp out = Inr res" by auto
        obtain p' sp' out' where res': "res = (p', sp', out')" by (cases res) auto
        from "2.IH"(3) [OF True rd0 EET_OPERAND res [unfolded res'] refl refl] wf alloc nl e
        obtain r where "WriteStatementEntryRange_loop c sf st e p' sp' out' = Inr r" by auto
        with res res' show ?thesis
          by (simp add: WriteStatementEntryRange_loop_unfold(4) [OF True rd])
      qed
    qed
  qed
next
  case (3 c sf st s e out)
  show ?case
  proof (intro impI, elim conjE)
    let ?n = "nat (sint (numEntries st))"
    assume wf: "?n \<le> length (entries st)" and alloc: "supporting_arrays_allocated st"
      and nl: "\<not> static_dvar_accessor_last c st" and se: "s \<le> e" and e: "e \<le> ?n"
    have le: "e \<le> size_t_cast (sint (numEntries st))"
    proof (cases "0 \<le> sint (numEntries st)")
      case True
      with e show ?thesis by (simp add: size_t_cast_sint)
    next
      case False
      with e show ?thesis by simp
    qed
    with se "3.IH" wf alloc nl e
    show "\<exists>r. WriteStatementEntryRange c sf st s e out = Inr r"
      by (simp add: WriteStatementEntryRange.simps [of c sf st s e])
  qed
qed

text \<open>
  The accessor in the last position is the only way for the serializer to fail: a range
  of a statement whose arrays hold as many elements as their counts say, and whose last
  entry is not a static dvar accessor, is always written.
\<close>

lemma WriteStatementEntryRange_succeeds:
  assumes "nat (sint (numEntries statement)) \<le> length (entries statement)"
    and "supporting_arrays_allocated statement"
    and "\<not> static_dvar_accessor_last c statement"
    and "startOffset \<le> endOffset"
    and "endOffset \<le> nat (sint (numEntries statement))"
  shows "\<exists>text. \<forall>out.
           WriteStatementEntryRange c show_float statement startOffset endOffset out =
             Inr (out @ text)"
proof -
  from WriteStatement_total(3) [of statement c startOffset endOffset show_float "[]"] assms
  obtain written where "WriteStatementEntryRange c show_float statement startOffset endOffset [] =
      Inr written" by blast
  then have "WriteStatementEntryRange c show_float statement startOffset endOffset out =
      Inr (out @ written)" for out
    using WriteStatementEntryRange_text [of c show_float statement startOffset endOffset out]
    by simp
  then show ?thesis by blast
qed

lemma WriteStatementEntryRange_succeeds_example:
  "\<exists>text. \<forall>out.
     WriteStatementEntryRange IW4_operationEnum no_float
       \<lparr>numEntries = 5,
        entries = [EET_OPERATOR 32, EET_OPERAND (VAL_INT 1), EET_OPERATOR 17,
                   EET_OPERAND (VAL_INT 2), EET_OPERATOR 1],
        supportingData = None\<rparr> 0 5 out = Inr (out @ text)"
proof -
  let ?s = "\<lparr>numEntries = 5,
        entries = [EET_OPERATOR 32, EET_OPERAND (VAL_INT 1), EET_OPERATOR 17,
                   EET_OPERAND (VAL_INT 2), EET_OPERATOR 1],
        supportingData = None\<rparr>"
  have h: "nat (sint (numEntries ?s)) \<le> length (entries ?s)" "supporting_arrays_allocated ?s"
    "\<not> static_dvar_accessor_last IW4_operationEnum ?s" "(0::nat) \<le> 5"
    "5 \<le> nat (sint (numEntries ?s))"
    by (simp_all add: supporting_arrays_allocated_def static_dvar_accessor_last_def
        IW4_operationEnum_def)
  from WriteStatementEntryRange_succeeds [OF h] show ?thesis .
qed

lemma WriteStatementOperator_static_dvar_example:
  "WriteStatementOperator IW4_operationEnum no_float
     \<lparr>numEntries = 3,
      entries = [EET_OPERATOR 23, EET_OPERAND (VAL_INT 0), EET_OPERATOR 1],
      supportingData = Some
        \<lparr>uifunctions = \<lparr>totalFunctions = 0, functions_array = None\<rparr>,
         staticDvarList = \<lparr>numStaticDvars = 1,
           staticDvars = Some [Some \<lparr>dvarName = Some ''ui_mapname''\<rparr>]\<rparr>\<rparr>\<rparr> 0 False []
     = Inr (3, True, ''dvarint(ui_mapname)'')"
proof -
  let ?c = IW4_operationEnum
  let ?s = "\<lparr>numEntries = 3,
      entries = [EET_OPERATOR 23, EET_OPERAND (VAL_INT 0), EET_OPERATOR 1],
      supportingData = Some
        \<lparr>uifunctions = \<lparr>totalFunctions = 0, functions_array = None\<rparr>,
         staticDvarList = \<lparr>numStaticDvars = 1,
           staticDvars = Some [Some \<lparr>dvarName = Some ''ui_mapname''\<rparr>]\<rparr>\<rparr>\<rparr>"
  have h: "nat (sint (numEntries ?s)) \<le> length (entries ?s)" "0 < nat (sint (numEntries ?s))"
    "0 + 1 < length (entries ?s)" "supporting_arrays_allocated ?s"
    "entries ?s ! 0 = EET_OPERATOR 23" "23 \<noteq> OP_LEFTPAREN ?c"
    "EXP_FUNC_STATIC_DVAR_INT ?c \<le> 23" "23 \<le> EXP_FUNC_STATIC_DVAR_STRING ?c"
    by (simp_all add: supporting_arrays_allocated_def IW4_operationEnum_def)
  have closing: "FindStatementClosingParenthesis ?c ?s 0 = Inr 2" by code_simp
  have arg: "static_dvar_argument ?s (entries ?s ! (0 + 1)) = ''ui_mapname''"
    by (simp add: static_dvar_argument_def static_dvar_table_def)
  from WriteStatementOperator_static_dvar [OF h, of no_float False "[]"]
  obtain r where r: "FindStatementClosingParenthesis ?c ?s 0 = Inr r"
    and w: "WriteStatementOperator ?c no_float ?s 0 False [] =
             Inr (r + 1, True,
                  [] @ operator_lead ?c False 23 @ static_dvar_keyword ?c 23 @ ''(''
                    @ static_dvar_argument ?s (entries ?s ! (0 + 1)) @ '')'')"
    by blast
  from r closing have "r = 2" by simp
  with w show ?thesis
    unfolding arg
    by (simp add: operator_lead_def static_dvar_keyword_def IW4_operationEnum_def)
qed

section \<open>T6 info strings: the claims\<close>

lemma inj_T6_csParseFieldType_value: "inj T6_csParseFieldType_value"
proof (rule injI)
  fix x y assume "T6_csParseFieldType_value x = T6_csParseFieldType_value y"
  then show "x = y" by (cases x; cases y) simp_all
qed

section \<open>Resource pointers (C6)\<close>

text \<open>
  C6. For a field of one of the resource pointer classes (effect, model, material or
  streamed material, phys preset, tracer), \<open>FillFromBaseField\<close> sets the field's key:
  to the name of the resource when the pointer at the field's offset is not null, and
  to the empty string when it is null. The values of the enumerators are only assumed
  to be distinct.
\<close>

theorem FillFromBaseField_resource_pointer:
  assumes "inj ev"
  shows "(iFieldType field = ev CSPFT_FX \<longrightarrow>
            FillFromBaseField ev base m_structure field m_info_string =
              Inr (SetValueForKey base (szName field)
                     (case FxEffectDef_at m_structure (iOffset field) of
                        Some fx \<Rightarrow> FxEffectDef.name fx | None \<Rightarrow> [])
                     m_info_string))
       \<and> (iFieldType field = ev CSPFT_XMODEL \<longrightarrow>
            FillFromBaseField ev base m_structure field m_info_string =
              Inr (SetValueForKey base (szName field)
                     (case XModel_at m_structure (iOffset field) of
                        Some model \<Rightarrow> XModel.name model | None \<Rightarrow> [])
                     m_info_string))
       \<and> (iFieldType field = ev CSPFT_MATERIAL \<or> iFieldType field = ev CSPFT_MATERIAL_STREAM \<longrightarrow>
            FillFromBaseField ev base m_structure field m_info_string =
              Inr (SetValueForKey base (szName field)
                     (case Material_at m_structure (iOffset field) of
                        Some material \<Rightarrow> MaterialInfo.name (info material) | None \<Rightarrow> [])
                     m_info_string))
       \<and> (iFieldType field = ev CSPFT_PHYS_PRESET \<longrightarrow>
            FillFromBaseField ev base m_structure field m_info_string =
              Inr (SetValueForKey base (szName field)
                     (case PhysPreset_at m_structure (iOffset field) of
                        Some physPreset \<Rightarrow> PhysPreset.name physPreset | None \<Rightarrow> [])
                     m_info_string))
       \<and> (iFieldType field = ev CSPFT_TRACER \<longrightarrow>
            FillFromBaseField ev base m_structure field m_info_string =
              Inr (SetValueForKey base (szName field)
                     (case TracerDef_at m_structure (iOffset field) of
                        Some tracer \<Rightarrow> TracerDef.name tracer | None \<Rightarrow> [])
                     m_info_string))"
proof -
  note eq = inj_eq [OF assms]
  show ?thesis
    by (intro conjI impI)
      (auto simp: FillFromBaseField_def Let_def eq split: option.splits)
qed

theorem FillFromBaseField_resource_pointer_witness:
  "FillFromBaseField T6_csParseFieldType_value recording_base example_structure
     \<lparr>szName = ''projExplosionEffect'', iOffset = 8, iFieldType = 10\<rparr> []
     = Inr [Call_SetValueForKey ''projExplosionEffect'' ''smoke'']
   \<and> FillFromBaseField T6_csParseFieldType_value recording_base example_structure
     \<lparr>szName = ''projTrailEffect'', iOffset = 12, iFieldType = 10\<rparr> []
     = Inr [Call_SetValueForKey ''projTrailEffect'' []]"
proof -
  note th = FillFromBaseField_resource_pointer [OF inj_T6_csParseFieldType_value,
      THEN conjunct1, rule_format]
  have "FillFromBaseField T6_csParseFieldType_value recording_base example_structure
     \<lparr>szName = ''projExplosionEffect'', iOffset = 8, iFieldType = 10\<rparr> []
     = Inr [Call_SetValueForKey ''projExplosionEffect'' ''smoke'']"
    by (subst th) (simp_all add: recording_base_def example_structure_def)
  moreover have "FillFromBaseField T6_csParseFieldType_value recording_base example_structure
     \<lparr>szName = ''projTrailEffect'', iOffset = 12, iFieldType = 10\<rparr> []
     = Inr [Call_SetValueForKey ''projTrailEffect'' []]"
    by (subst th) (simp_all add: recording_base_def example_structure_def)
  ultimately show ?thesis by (rule conjI)
qed

section \<open>Unrecognized field types (C7)\<close>

lemma FillInfoString_append:
  "FillInfoString ev base m (xs @ ys) s =
     (case FillInfoString ev base m xs s of
        Inl e \<Rightarrow> Inl e
      | Inr s' \<Rightarrow> FillInfoString ev base m ys s')"
  by (induction xs arbitrary: s) (simp_all split: sum.splits)

text \<open>
  C7. A field whose type tag is the value of none of the eighteen base field types is
  fatal in \<open>FillFromBaseField\<close>: the assertion of the default branch fails and no info
  string is returned. In \<open>FillInfoString\<close>, a descriptor table that holds such a field
  with a tag below \<open>CSPFT_NUM_BASE_FIELD_TYPES\<close> never yields an info string: once the
  fields in front of it are converted the conversion ends with the failed assertion;
  the field is not skipped and the fields behind it are not converted.
\<close>

theorem unrecognized_field_type_is_fatal:
  assumes "\<forall>t. t \<noteq> CSPFT_NUM_BASE_FIELD_TYPES \<longrightarrow> iFieldType field \<noteq> ev t"
  shows "FillFromBaseField ev base m_structure field m_info_string = Inl AssertionFailed
       \<and> (iFieldType field < ev CSPFT_NUM_BASE_FIELD_TYPES \<longrightarrow>
            FillInfoString ev base m_structure (before @ field # after) m_info_string =
              (case FillInfoString ev base m_structure before m_info_string of
                 Inl e \<Rightarrow> Inl e
               | Inr m_info_string' \<Rightarrow> Inl AssertionFailed))"
proof -
  have fatal: "FillFromBaseField ev base m_structure field s = Inl AssertionFailed" for s
    using assms by (simp add: FillFromBaseField_def Let_def)
  then have "iFieldType field < ev CSPFT_NUM_BASE_FIELD_TYPES \<Longrightarrow>
      FillInfoString ev base m_structure (field # after) s = Inl AssertionFailed" for s
    by simp
  then show ?thesis
    using fatal by (simp add: FillInfoString_append split: sum.splits)
qed

theorem unrecognized_field_type_is_fatal_witness:
  "FillFromBaseField (\<lambda>t. 2 * T6_csParseFieldType_value t) recording_base example_structure
     \<lparr>szName = ''bogus'', iOffset = 0, iFieldType = 1\<rparr> [] = Inl AssertionFailed
   \<and> FillInfoString (\<lambda>t. 2 * T6_csParseFieldType_value t) recording_base example_structure
     [\<lparr>szName = ''damage'', iOffset = 4, iFieldType = 8\<rparr>,
      \<lparr>szName = ''bogus'', iOffset = 0, iFieldType = 1\<rparr>,
      \<lparr>szName = ''clipSize'', iOffset = 16, iFieldType = 8\<rparr>] [] = Inl AssertionFailed"
proof -
  let ?ev = "\<lambda>t. 2 * T6_csParseFieldType_value t"
  let ?bad = "\<lparr>szName = ''bogus'', iOffset = 0, iFieldType = 1\<rparr>"
  have "1 \<noteq> 2 * x" for x :: int by presburger
  then have odd: "\<forall>t. t \<noteq> CSPFT_NUM_BASE_FIELD_TYPES \<longrightarrow> iFieldType ?bad \<noteq> ?ev t"
    by simp
  note th = unrecognized_field_type_is_fatal [OF odd, of recording_base example_structure "[]"
      "[\<lparr>szName = ''damage'', iOffset = 4, iFieldType = 8\<rparr>]"
      "[\<lparr>szName = ''clipSize'', iOffset = 16, iFieldType = 8\<rparr>]"]
  have before: "FillInfoString ?ev recording_base example_structure
      [\<lparr>szName = ''damage'', iOffset = 4, iFieldType = 8\<rparr>] [] =
      Inr [Call_FillFromInt ''damage'' 4]"
    by (simp add: FillFromBaseField_def recording_base_def)
  have lt: "iFieldType ?bad < ?ev CSPFT_NUM_BASE_FIELD_TYPES" by simp
  have "FillInfoString ?ev recording_base example_structure
      ([\<lparr>szName = ''damage'', iOffset = 4, iFieldType = 8\<rparr>] @ ?bad #
       [\<lparr>szName = ''clipSize'', iOffset = 16, iFieldType = 8\<rparr>]) [] = Inl AssertionFailed"
    unfolding th [THEN conjunct2, rule_format, OF lt] before by simp
  then have "FillInfoString ?ev recording_base example_structure
      [\<lparr>szName = ''damage'', iOffset = 4, iFieldType = 8\<rparr>, ?bad,
       \<lparr>szName = ''clipSize'', iOffset = 16, iFieldType = 8\<rparr>] [] = Inl AssertionFailed"
    by (simp del: FillInfoString.simps)
  with th [THEN conjunct1] show ?thesis by (rule conjI)
qed

section \<open>Fixed string buffers (C8)\<close>

text \<open>
  Which fields go to the string buffer reader and with which capacity, and what the
  reader of the base class takes out of the inline buffer.
\<close>

lemma string_buffer_capacity_eq:
  assumes "inj ev"
  shows "string_buffer_capacity ev m_structure field =
      (if iFieldType field = ev CSPFT_STRING_MAX_STRING_CHARS then Some 1024
       else if iFieldType field = ev CSPFT_STRING_MAX_QPATH then Some 64
       else if iFieldType field = ev CSPFT_STRING_MAX_OSPATH then Some 256
       else None)"
proof -
  note eq = inj_eq [OF assms]
  show ?thesis
    by (simp add: string_buffer_capacity_def FillFromBaseField_def recording_base_def Let_def eq
        split: option.split)
qed

lemma FillFromBaseField_reader:
  assumes "inj ev"
  shows "FillFromBaseField ev (base\<lparr>FillFromStringBuffer := reader\<rparr>) m_structure field m_info_string =
      (if iFieldType field = ev CSPFT_STRING_MAX_STRING_CHARS
         then reader (szName field) (iOffset field) 1024 m_info_string
       else if iFieldType field = ev CSPFT_STRING_MAX_QPATH
         then reader (szName field) (iOffset field) 64 m_info_string
       else if iFieldType field = ev CSPFT_STRING_MAX_OSPATH
         then reader (szName field) (iOffset field) 256 m_info_string
       else FillFromBaseField ev base m_structure field m_info_string)"
proof -
  note eq = inj_eq [OF assms]
  show ?thesis
    by (simp add: FillFromBaseField_def Let_def eq split: option.split)
qed

lemma inline_buffer_length: "length (inline_buffer m offset n) \<le> n"
  unfolding inline_buffer_def
  using length_takeWhile_le [of "\<lambda>c. c \<noteq> CHR 0x00" "map (\<lambda>k. char_at m (offset + int k)) [0..<n]"]
  by simp

lemma inline_buffer_nth:
  assumes "k < length (inline_buffer m offset n)"
  shows "inline_buffer m offset n ! k = char_at m (offset + int k)"
    and "inline_buffer m offset n ! k \<noteq> CHR 0x00"
proof -
  let ?xs = "map (\<lambda>k. char_at m (offset + int k)) [0..<n]"
  let ?P = "\<lambda>c. c \<noteq> CHR 0x00"
  from assms have k: "k < length (takeWhile ?P ?xs)" by (simp add: inline_buffer_def)
  with inline_buffer_length [of m offset n] assms have kn: "k < n" by simp
  from k have "takeWhile ?P ?xs ! k = ?xs ! k" by (rule takeWhile_nth)
  with kn show "inline_buffer m offset n ! k = char_at m (offset + int k)"
    by (simp add: inline_buffer_def)
  from k have "takeWhile ?P ?xs ! k \<in> set (takeWhile ?P ?xs)" by (rule nth_mem)
  then have "?P (takeWhile ?P ?xs ! k)" by (rule set_takeWhileD [THEN conjunct2])
  then show "inline_buffer m offset n ! k \<noteq> CHR 0x00" by (simp add: inline_buffer_def)
qed

lemma inline_buffer_end:
  assumes "length (inline_buffer m offset n) < n"
  shows "char_at m (offset + int (length (inline_buffer m offset n))) = CHR 0x00"
proof -
  let ?xs = "map (\<lambda>k. char_at m (offset + int k)) [0..<n]"
  let ?P = "\<lambda>c. c \<noteq> CHR 0x00"
  from assms have l: "length (takeWhile ?P ?xs) < length ?xs" by (simp add: inline_buffer_def)
  then have "\<not> ?P (?xs ! length (takeWhile ?P ?xs))" by (rule nth_length_takeWhile)
  with l show ?thesis by (simp add: inline_buffer_def)
qed

lemma example_inline_buffer: "inline_buffer example_structure 16 64 = ''hud''"
  by code_simp


lemma string_buffer_classes:
  assumes "inj ev"
  shows "{t. \<exists>f. iFieldType f = t \<and> string_buffer_capacity ev m_structure f \<noteq> None} =
           {ev CSPFT_STRING_MAX_STRING_CHARS, ev CSPFT_STRING_MAX_QPATH,
            ev CSPFT_STRING_MAX_OSPATH}"
    (is "?L = ?R")
proof (rule set_eqI)
  fix t
  note cap = string_buffer_capacity_eq [OF assms, of m_structure]
  show "t \<in> ?L \<longleftrightarrow> t \<in> ?R"
  proof
    assume "t \<in> ?L"
    then obtain f where "iFieldType f = t" "string_buffer_capacity ev m_structure f \<noteq> None"
      by auto
    then show "t \<in> ?R" by (simp add: cap split: if_splits)
  next
    assume "t \<in> ?R"
    let ?f = "\<lparr>szName = [], iOffset = 0, iFieldType = t\<rparr>"
    from \<open>t \<in> ?R\<close> have "string_buffer_capacity ev m_structure ?f \<noteq> None"
      by (auto simp add: cap)
    moreover have "iFieldType ?f = t" by simp
    ultimately have "\<exists>f. iFieldType f = t \<and> string_buffer_capacity ev m_structure f \<noteq> None"
      by (intro exI conjI)
    then show "t \<in> ?L" by simp
  qed
qed

lemma string_buffer_classes_card:
  assumes "inj ev"
  shows "card {ev CSPFT_STRING_MAX_STRING_CHARS, ev CSPFT_STRING_MAX_QPATH,
               ev CSPFT_STRING_MAX_OSPATH} = 3"
  by (simp add: inj_eq [OF assms])

lemma string_buffer_capacities:
  assumes "inj ev"
  shows "{n. \<exists>f. string_buffer_capacity ev m_structure f = Some n} = {1024, 64, 256}"
    (is "?L = ?R")
proof (rule set_eqI)
  fix n
  note cap = string_buffer_capacity_eq [OF assms, of m_structure]
  note eq = inj_eq [OF assms]
  show "n \<in> ?L \<longleftrightarrow> n \<in> ?R"
  proof
    assume "n \<in> ?L"
    then obtain f where "string_buffer_capacity ev m_structure f = Some n" by auto
    then show "n \<in> ?R" by (auto simp add: cap split: if_splits)
  next
    assume "n \<in> ?R"
    then consider "n = 1024" | "n = 64" | "n = 256" by auto
    then have "\<exists>f. string_buffer_capacity ev m_structure f = Some n"
    proof cases
      case 1
      have "string_buffer_capacity ev m_structure
              \<lparr>szName = [], iOffset = 0, iFieldType = ev CSPFT_STRING_MAX_STRING_CHARS\<rparr> = Some n"
        by (simp add: cap eq 1)
      then show ?thesis ..
    next
      case 2
      have "string_buffer_capacity ev m_structure
              \<lparr>szName = [], iOffset = 0, iFieldType = ev CSPFT_STRING_MAX_QPATH\<rparr> = Some n"
        by (simp add: cap eq 2)
      then show ?thesis ..
    next
      case 3
      have "string_buffer_capacity ev m_structure
              \<lparr>szName = [], iOffset = 0, iFieldType = ev CSPFT_STRING_MAX_OSPATH\<rparr> = Some n"
        by (simp add: cap eq 3)
      then show ?thesis ..
    qed
    then show "n \<in> ?L" by simp
  qed
qed

text \<open>
  C8, as amended. There are exactly three classes of fixed string buffers, not two.
  \<open>FillFromBaseField\<close> hands a field to the string buffer reader of the base class,
  with the field's key and offset, exactly when its tag is
  \<open>CSPFT_STRING_MAX_STRING_CHARS\<close>, \<open>CSPFT_STRING_MAX_QPATH\<close> or
  \<open>CSPFT_STRING_MAX_OSPATH\<close>, and the capacity is then 1024, 64 and 256; a field of any
  other tag is converted without the reader. The tags of the classes are three, and so
  are the capacities. With the reader of the base class, a field of a class of capacity
  \<open>N\<close> is read as at most \<open>N\<close> characters, which are the characters of the inline
  buffer from the field's offset on, up to the first NUL if there is one among them; a
  text that is not empty becomes the value of the field's key, an empty one sets no key.
\<close>

theorem FillFromBaseField_string_buffer:
  assumes "inj ev"
  shows
    "FillFromBaseField ev (base\<lparr>FillFromStringBuffer := reader\<rparr>) m_structure field
         m_info_string =
       (if iFieldType field = ev CSPFT_STRING_MAX_STRING_CHARS
          then reader (szName field) (iOffset field) 1024 m_info_string
        else if iFieldType field = ev CSPFT_STRING_MAX_QPATH
          then reader (szName field) (iOffset field) 64 m_info_string
        else if iFieldType field = ev CSPFT_STRING_MAX_OSPATH
          then reader (szName field) (iOffset field) 256 m_info_string
        else FillFromBaseField ev base m_structure field m_info_string)
     \<and> string_buffer_capacity ev m_structure field =
       (if iFieldType field = ev CSPFT_STRING_MAX_STRING_CHARS then Some 1024
        else if iFieldType field = ev CSPFT_STRING_MAX_QPATH then Some 64
        else if iFieldType field = ev CSPFT_STRING_MAX_OSPATH then Some 256
        else None)
     \<and> {t. \<exists>f. iFieldType f = t \<and> string_buffer_capacity ev m_structure f \<noteq> None} =
         {ev CSPFT_STRING_MAX_STRING_CHARS, ev CSPFT_STRING_MAX_QPATH,
          ev CSPFT_STRING_MAX_OSPATH}
     \<and> card {ev CSPFT_STRING_MAX_STRING_CHARS, ev CSPFT_STRING_MAX_QPATH,
             ev CSPFT_STRING_MAX_OSPATH} = 3
     \<and> {n. \<exists>f. string_buffer_capacity ev m_structure f = Some n} = {1024, 64, 256}
     \<and> (\<forall>N. string_buffer_capacity ev m_structure field = Some N \<longrightarrow>
           FillFromBaseField ev
               (base\<lparr>FillFromStringBuffer :=
                  InfoStringFromStructConverterBase_FillFromStringBuffer
                    (SetValueForKey base) m_structure\<rparr>)
               m_structure field m_info_string =
             Inr (if inline_buffer m_structure (iOffset field) N = [] then m_info_string
                  else SetValueForKey base (szName field)
                         (inline_buffer m_structure (iOffset field) N) m_info_string)
         \<and> length (inline_buffer m_structure (iOffset field) N) \<le> N
         \<and> (\<forall>k < length (inline_buffer m_structure (iOffset field) N).
               inline_buffer m_structure (iOffset field) N ! k =
                 char_at m_structure (iOffset field + int k)
             \<and> inline_buffer m_structure (iOffset field) N ! k \<noteq> CHR 0x00)
         \<and> (length (inline_buffer m_structure (iOffset field) N) < N \<longrightarrow>
               char_at m_structure
                 (iOffset field + int (length (inline_buffer m_structure (iOffset field) N))) =
               CHR 0x00))"
    (is "?dispatch \<and> ?capacity \<and> ?classes \<and> ?count \<and> ?capacities \<and> ?reading")
proof -
  note cap = string_buffer_capacity_eq [OF assms, of m_structure field]
  have "?dispatch" by (rule FillFromBaseField_reader [OF assms])
  moreover have "?capacity" by (rule cap)
  moreover have "?classes" by (rule string_buffer_classes [OF assms])
  moreover have "?count" by (rule string_buffer_classes_card [OF assms])
  moreover have "?capacities" by (rule string_buffer_capacities [OF assms])
  moreover have "?reading"
  proof (intro allI impI conjI)
    fix N assume N: "string_buffer_capacity ev m_structure field = Some N"
    let ?reader = "InfoStringFromStructConverterBase_FillFromStringBuffer
                     (SetValueForKey base) m_structure"
    have "FillFromBaseField ev (base\<lparr>FillFromStringBuffer := ?reader\<rparr>) m_structure field
            m_info_string = ?reader (szName field) (iOffset field) N m_info_string"
      using N unfolding cap FillFromBaseField_reader [OF assms]
      by (simp split: if_splits)
    then show "FillFromBaseField ev (base\<lparr>FillFromStringBuffer := ?reader\<rparr>) m_structure field
            m_info_string =
          Inr (if inline_buffer m_structure (iOffset field) N = [] then m_info_string
               else SetValueForKey base (szName field)
                      (inline_buffer m_structure (iOffset field) N) m_info_string)"
      by (simp add: InfoStringFromStructConverterBase_FillFromStringBuffer_def Let_def)
    show "length (inline_buffer m_structure (iOffset field) N) \<le> N"
      by (rule inline_buffer_length)
  next
    fix N k assume "k < length (inline_buffer m_structure (iOffset field) N)"
    then show "inline_buffer m_structure (iOffset field) N ! k =
                 char_at m_structure (iOffset field + int k)"
      and "inline_buffer m_structure (iOffset field) N ! k \<noteq> CHR 0x00"
      by (rule inline_buffer_nth)+
  next
    fix N assume "length (inline_buffer m_structure (iOffset field) N) < N"
    then show "char_at m_structure
                 (iOffset field + int (length (inline_buffer m_structure (iOffset field) N))) =
               CHR 0x00"
      by (rule inline_buffer_end)
  qed
  ultimately show ?thesis by (intro conjI)
qed

theorem FillFromBaseField_string_buffer_witness:
  "string_buffer_capacity T6_csParseFieldType_value example_structure
       \<lparr>szName = ''displayName'', iOffset = 16, iFieldType = 2\<rparr> = Some 64
   \<and> FillFromBaseField T6_csParseFieldType_value
       (recording_base\<lparr>FillFromStringBuffer :=
          InfoStringFromStructConverterBase_FillFromStringBuffer
            (SetValueForKey recording_base) example_structure\<rparr>)
       example_structure \<lparr>szName = ''displayName'', iOffset = 16, iFieldType = 2\<rparr> []
     = Inr [Call_SetValueForKey ''displayName'' ''hud'']
   \<and> FillFromBaseField T6_csParseFieldType_value
       (recording_base\<lparr>FillFromStringBuffer :=
          InfoStringFromStructConverterBase_FillFromStringBuffer
            (SetValueForKey recording_base) example_structure\<rparr>)
       example_structure \<lparr>szName = ''displayName'', iOffset = 8, iFieldType = 10\<rparr> []
     = Inr [Call_SetValueForKey ''displayName'' ''smoke'']"
proof -
  let ?ev = T6_csParseFieldType_value
  let ?reader = "InfoStringFromStructConverterBase_FillFromStringBuffer
                   (SetValueForKey recording_base) example_structure"
  let ?f = "\<lparr>szName = ''displayName'', iOffset = 16, iFieldType = 2\<rparr>"
  let ?g = "\<lparr>szName = ''displayName'', iOffset = 8, iFieldType = 10\<rparr>"
  note th = FillFromBaseField_string_buffer [OF inj_T6_csParseFieldType_value,
      where base = recording_base and reader = ?reader and m_structure = example_structure
        and field = ?f and m_info_string = "[]"]
  note th2 = FillFromBaseField_string_buffer [OF inj_T6_csParseFieldType_value,
      where base = recording_base and reader = ?reader and m_structure = example_structure
        and field = ?g and m_info_string = "[]"]
  from th have cap: "string_buffer_capacity ?ev example_structure ?f = Some 64"
    by simp
  from th cap have "FillFromBaseField ?ev (recording_base\<lparr>FillFromStringBuffer := ?reader\<rparr>)
      example_structure ?f [] =
    Inr (if inline_buffer example_structure (iOffset ?f) 64 = [] then []
         else SetValueForKey recording_base (szName ?f)
                (inline_buffer example_structure (iOffset ?f) 64) [])"
    by blast
  then have a: "FillFromBaseField ?ev (recording_base\<lparr>FillFromStringBuffer := ?reader\<rparr>)
      example_structure ?f [] = Inr [Call_SetValueForKey ''displayName'' ''hud'']"
    by (simp add: example_inline_buffer recording_base_def)
  from th2 have "FillFromBaseField ?ev (recording_base\<lparr>FillFromStringBuffer := ?reader\<rparr>)
      example_structure ?g [] = FillFromBaseField ?ev recording_base example_structure ?g []"
    by simp
  then have b: "FillFromBaseField ?ev (recording_base\<lparr>FillFromStringBuffer := ?reader\<rparr>)
      example_structure ?g [] = Inr [Call_SetValueForKey ''displayName'' ''smoke'']"
    by (simp add: FillFromBaseField_def recording_base_def example_structure_def)
  from cap a b show ?thesis by (intro conjI)
qed

text \<open>
  The three tags make the converter read with three different capacities.
\<close>

theorem string_buffer_capacities_counterexample:
  "FillFromBaseField T6_csParseFieldType_value recording_base example_structure
     \<lparr>szName = ''a'', iOffset = 0, iFieldType = 1\<rparr> []
     = Inr [Call_FillFromStringBuffer ''a'' 0 1024]
   \<and> FillFromBaseField T6_csParseFieldType_value recording_base example_structure
     \<lparr>szName = ''a'', iOffset = 0, iFieldType = 2\<rparr> []
     = Inr [Call_FillFromStringBuffer ''a'' 0 64]
   \<and> FillFromBaseField T6_csParseFieldType_value recording_base example_structure
     \<lparr>szName = ''a'', iOffset = 0, iFieldType = 3\<rparr> []
     = Inr [Call_FillFromStringBuffer ''a'' 0 256]"
  by (simp add: FillFromBaseField_def recording_base_def)

end
